theory Spec2Isabelle
  imports Main "HOL-Library.Word" "HOL-Library.FSet" "HOL-Library.Sublist" "HOL-Library.AList"
begin

section \<open>JSON values\<close>

text \<open>
  The bridge daemon is the second program held in \<^verbatim>\<open>src/bridge/client.js\<close> (from line
  210 on; the line numbers below are those of that file).  It is a single-threaded
  Node.js process: every handler runs to completion before the next event is taken, so
  the model is a state that the handlers transform, one event after the other.  The log
  file and the ring of runtime events (\<^verbatim>\<open>writeLog\<close>, \<^verbatim>\<open>pushRuntimeEvent\<close>) are
  written but never read by the code modelled here, and are left out.

  The daemon handles values produced by \<^verbatim>\<open>JSON.parse\<close>.  A number is represented by the
  text that \<^verbatim>\<open>String(n)\<close> prints for it: the daemon only tests numbers for truthiness
  (\<^verbatim>\<open>0\<close> is the one falsy number that JSON can produce), compares them and
  converts them to strings.  An object is the list of its own properties;
  \<^verbatim>\<open>undefined\<close> is \<open>None\<close>.
\<close>

datatype json =
    JNull
  | JBool bool
  | JNum string
  | JStr string
  | JArr "json list"
  | JObj "(string \<times> json) list"

text \<open>Property access \<^verbatim>\<open>v.k\<close> on a truthy parsed value, for the property
  names the daemon reads (none of them is defined on a prototype).\<close>

fun getProp :: "json \<Rightarrow> string \<Rightarrow> json option" where
  "getProp (JObj kvs) k = map_of kvs k"
| "getProp _ k = None"

text \<open>JavaScript truthiness (\<^verbatim>\<open>!v\<close> is its negation).\<close>

fun truthy :: "json option \<Rightarrow> bool" where
  "truthy None = False"
| "truthy (Some JNull) = False"
| "truthy (Some (JBool b)) = b"
| "truthy (Some (JNum t)) = (t \<noteq> ''0'')"
| "truthy (Some (JStr s)) = (s \<noteq> [])"
| "truthy (Some (JArr xs)) = True"
| "truthy (Some (JObj kvs)) = True"

text \<open>\<^verbatim>\<open>a || b\<close> where \<open>b\<close> is a value.\<close>

definition orElse :: "json option \<Rightarrow> json \<Rightarrow> json" where
  "orElse a b = (case a of Some v \<Rightarrow> (if truthy a then v else b) | None \<Rightarrow> b)"

datatype jsError = TypeError | RangeError | SyntaxError

text \<open>\<^verbatim>\<open>String(v)\<close>.  An object that came from JSON is printed by
  \<^verbatim>\<open>Object.prototype.toString\<close> unless it has an own property \<^verbatim>\<open>toString\<close>;
  that property is never callable, and \<^verbatim>\<open>valueOf\<close> does not yield a primitive, so the
  conversion throws.  An array joins the strings of its elements, \<^verbatim>\<open>null\<close> giving
  the empty string.\<close>

fun joinComma :: "string list \<Rightarrow> string" where
  "joinComma [] = []"
| "joinComma [x] = x"
| "joinComma (x # y # ys) = x @ '','' @ joinComma (y # ys)"

fun collect :: "(jsError + 'a) list \<Rightarrow> jsError + 'a list" where
  "collect [] = Inr []"
| "collect (Inl e # xs) = Inl e"
| "collect (Inr v # xs) = (case collect xs of Inl e \<Rightarrow> Inl e | Inr vs \<Rightarrow> Inr (v # vs))"

fun jsString :: "json \<Rightarrow> jsError + string" where
  "jsString JNull = Inr ''null''"
| "jsString (JBool b) = Inr (if b then ''true'' else ''false'')"
| "jsString (JNum t) = Inr t"
| "jsString (JStr s) = Inr s"
| "jsString (JArr xs) =
     (case collect (map (\<lambda>x. if x = JNull then Inr [] else jsString x) xs) of
        Inl e \<Rightarrow> Inl e
      | Inr ss \<Rightarrow> Inr (joinComma ss))"
| "jsString (JObj kvs) =
     (if ''toString'' \<in> fst ` set kvs then Inl TypeError else Inr ''[object Object]'')"


section \<open>The platform\<close>

text \<open>
  Built-in functions of Node.js that the daemon calls are parameters of the model:
  the SHA-256 digest (\<^verbatim>\<open>crypto.createHash("sha256")\<close>), \<^verbatim>\<open>JSON.parse\<close>
  (\<open>None\<close> when it throws), \<^verbatim>\<open>String.prototype.trim\<close>, the clock behind
  \<^verbatim>\<open>nowIso()\<close> and the generator behind \<^verbatim>\<open>randomId()\<close>; the last two are read
  through a counter kept in the state, one reading per call.  Strings are sequences of
  UTF-8 bytes, so \<^verbatim>\<open>Buffer.byteLength(s, "utf8")\<close> is \<open>length s\<close>.
\<close>

record platform =
  digest :: "string \<Rightarrow> 256 word"
  jsonParse :: "string \<Rightarrow> json option"
  trim :: "string \<Rightarrow> string"
  clock :: "nat \<Rightarrow> string"
  randomHex :: "nat \<Rightarrow> string"

section \<open>Hashes\<close>

text \<open>The 32 bytes of a digest, most significant first, and their lowercase hex
  encoding (\<^verbatim>\<open>.digest("hex")\<close>).\<close>

definition digestBytes :: "256 word \<Rightarrow> nat list" where
  "digestBytes w = map (\<lambda>i. unat (drop_bit (8 * (31 - i)) w) mod 256) [0..<32]"

definition hexDigit :: "nat \<Rightarrow> char" where
  "hexDigit n = ''0123456789abcdef'' ! (n mod 16)"

definition hexEncode :: "nat list \<Rightarrow> string" where
  "hexEncode bs = concat (map (\<lambda>b. [hexDigit (b div 16), hexDigit (b mod 16)]) bs)"

text \<open>\<^verbatim>\<open>sha256(input)\<close> of line 275, on the string that \<^verbatim>\<open>String(input)\<close> gave.\<close>

definition sha256 :: "platform \<Rightarrow> string \<Rightarrow> string" where
  "sha256 P input = hexEncode (digestBytes (digest P input))"

text \<open>\<^verbatim>\<open>Buffer.from(s, "hex")\<close>: pairs of hex digits are decoded until the first
  pair that holds another character; a trailing single character is dropped.\<close>

definition unhex :: "char \<Rightarrow> nat option" where
  "unhex c =
     (let n = of_char c :: nat in
      if 48 \<le> n \<and> n \<le> 57 then Some (n - 48)
      else if 97 \<le> n \<and> n \<le> 102 then Some (n - 87)
      else if 65 \<le> n \<and> n \<le> 70 then Some (n - 55)
      else None)"

fun hexDecode :: "string \<Rightarrow> nat list" where
  "hexDecode (a # b # rest) =
     (case (unhex a, unhex b) of
        (Some x, Some y) \<Rightarrow> (16 * x + y) # hexDecode rest
      | _ \<Rightarrow> [])"
| "hexDecode _ = []"

text \<open>\<^verbatim>\<open>crypto.timingSafeEqual\<close> throws a RangeError on buffers of different
  lengths.\<close>

definition timingSafeEqual :: "nat list \<Rightarrow> nat list \<Rightarrow> jsError + bool" where
  "timingSafeEqual a b = (if length a \<noteq> length b then Inl RangeError else Inr (a = b))"

text \<open>\<^verbatim>\<open>safeCompareHash(plain, expectedHash)\<close>, lines 283-290.  \<open>plain\<close> is any
  JSON value (the socket handler passes \<^verbatim>\<open>msg.apiKey || ""\<close>, the HTTP handler a
  header string); the stored hash is a string.\<close>

definition safeCompareHash :: "platform \<Rightarrow> json \<Rightarrow> string \<Rightarrow> jsError + bool" where
  "safeCompareHash P plain expectedHash =
     (case jsString plain of
        Inl e \<Rightarrow> Inl e
      | Inr p \<Rightarrow>
          (let actual = hexDecode (sha256 P p);
               expected = hexDecode expectedHash
           in if length actual \<noteq> length expected then Inr False
              else timingSafeEqual actual expected))"

section \<open>Configuration and client registry\<close>

text \<open>The loaded configuration as the router and the listeners read it: the reading of
  the document that \<open>loadConfig\<close> (below) returns, for a document whose client
  identifiers, key hashes and allowlist entries are strings and whose two limits are
  non-negative integers.  An absent admin token hash is \<open>None\<close>.\<close>

record client =
  client_id :: string
  keySha256 :: string
  canSendTo :: "string list"

record config =
  clients :: "client list"
  maxMessageBytes :: nat
  queueLimit :: nat
  adminTokenSha256 :: "string option"

text \<open>\<^verbatim>\<open>new Map(config.clients.map((c) => [c.id, c]))\<close>: a later entry replaces an
  earlier one with the same key.\<close>

definition clientsById :: "config \<Rightarrow> string \<Rightarrow> client option" where
  "clientsById cfg = map_of (rev (map (\<lambda>c. (client_id c, c)) (clients cfg)))"

text \<open>\<^verbatim>\<open>clientsById.get(v)\<close> and \<^verbatim>\<open>clientsById.has(v)\<close> for a JSON value: only a
  string can be a key of the registry.\<close>

definition lookupClient :: "config \<Rightarrow> json option \<Rightarrow> client option" where
  "lookupClient cfg v = (case v of Some (JStr k) \<Rightarrow> clientsById cfg k | _ \<Rightarrow> None)"

definition canRoute :: "config \<Rightarrow> string \<Rightarrow> string \<Rightarrow> bool" where
  "canRoute cfg fromClientId toClientId =
     (case clientsById cfg fromClientId of
        None \<Rightarrow> False
      | Some sender \<Rightarrow>
          if ''*'' \<in> set (canSendTo sender) then True
          else toClientId \<in> set (canSendTo sender))"

section \<open>Envelopes, frames and the daemon's state\<close>

record envelope =
  env_id :: json
  env_from :: string
  env_to :: string
  env_type :: json
  payload :: json
  correlationId :: json
  ts :: string

text \<open>The frames the daemon writes (the argument of \<^verbatim>\<open>sendJson\<close>).\<close>

datatype frame =
    ErrorFrame string
  | AuthFailed
  | AuthOk string nat string
  | Pong string
  | Sent json nat bool string
  | WhoAmI string "string list" string
  | Message envelope

text \<open>A socket is \<open>Fresh\<close> before it is accepted, \<open>Open\<close> while Node delivers its
  data events, \<open>Destroyed\<close> after \<^verbatim>\<open>socket.destroy()\<close> and \<open>Closed\<close> once its close
  event has run.  \<open>written\<close> is the sequence of frames passed to \<^verbatim>\<open>socket.write\<close>.\<close>

datatype sockState = Fresh | Open | Destroyed | Closed

record conn =
  buffer :: string
  authed :: bool
  clientId :: "string option"
  written :: "frame list"
  sock :: sockState

text \<open>\<open>activeConnections\<close> maps a client id to the set of its connections,
  \<open>pendingQueues\<close> to its queue (oldest first).  \<open>tick\<close> counts the readings of the
  clock and the random generator; \<open>fault\<close> is the exception that ended the process,
  if any.\<close>

record bridge =
  conns :: "nat \<Rightarrow> conn"
  activeConnections :: "string \<rightharpoonup> nat fset"
  pendingQueues :: "string \<rightharpoonup> envelope list"
  tick :: nat
  fault :: "jsError option"

record routed =
  deliveredTo :: nat
  queued :: bool

definition freshConn :: conn where
  "freshConn = \<lparr>buffer = [], authed = False, clientId = None, written = [], sock = Fresh\<rparr>"

definition init :: bridge where
  "init = \<lparr>conns = (\<lambda>c. freshConn), activeConnections = Map.empty,
           pendingQueues = Map.empty, tick = 0, fault = None\<rparr>"

definition nowIso :: "platform \<Rightarrow> bridge \<Rightarrow> string \<times> bridge" where
  "nowIso P s = (clock P (tick s), s\<lparr>tick := Suc (tick s)\<rparr>)"

definition randomId :: "platform \<Rightarrow> string \<Rightarrow> bridge \<Rightarrow> string \<times> bridge" where
  "randomId P pre s = (pre @ ''_'' @ randomHex P (tick s), s\<lparr>tick := Suc (tick s)\<rparr>)"

definition getQueue :: "string \<Rightarrow> bridge \<Rightarrow> envelope list \<times> bridge" where
  "getQueue k s =
     (case pendingQueues s k of
        None \<Rightarrow> ([], s\<lparr>pendingQueues := (pendingQueues s)(k \<mapsto> [])\<rparr>)
      | Some q \<Rightarrow> (q, s))"

definition sendJson :: "nat \<Rightarrow> frame \<Rightarrow> bridge \<Rightarrow> bridge" where
  "sendJson c f s =
     s\<lparr>conns := (conns s)(c := (conns s c)\<lparr>written := written (conns s c) @ [f]\<rparr>)\<rparr>"

definition registerConnection :: "string \<Rightarrow> nat \<Rightarrow> bridge \<Rightarrow> bridge" where
  "registerConnection k c s =
     (let s1 = (if activeConnections s k = None
                then s\<lparr>activeConnections := (activeConnections s)(k \<mapsto> {||})\<rparr> else s)
      in s1\<lparr>activeConnections :=
             (activeConnections s1)(k := map_option (finsert c) (activeConnections s1 k))\<rparr>)"

definition unregisterConnection :: "string \<Rightarrow> nat \<Rightarrow> bridge \<Rightarrow> bridge" where
  "unregisterConnection k c s =
     (case activeConnections s k of
        None \<Rightarrow> s
      | Some cs \<Rightarrow>
          (let cs1 = cs |-| {|c|}
           in if fcard cs1 = 0
              then s\<lparr>activeConnections := (activeConnections s)(k := None)\<rparr>
              else s\<lparr>activeConnections := (activeConnections s)(k \<mapsto> cs1)\<rparr>))"

section \<open>Router and queue store\<close>

text \<open>\<^verbatim>\<open>!recipients || recipients.size === 0\<close> and the set that the loop of
  \<^verbatim>\<open>deliverEnvelope\<close> walks.\<close>

definition offline :: "bridge \<Rightarrow> string \<Rightarrow> bool" where
  "offline s k = (case activeConnections s k of None \<Rightarrow> True | Some cs \<Rightarrow> fcard cs = 0)"

definition recipientsOf :: "bridge \<Rightarrow> string \<Rightarrow> nat fset" where
  "recipientsOf s k = (case activeConnections s k of None \<Rightarrow> {||} | Some cs \<Rightarrow> cs)"

text \<open>The loop \<^verbatim>\<open>for (const conn of recipients) sendJson(conn.socket, ...)\<close>: one
  write on each socket of the set; the sockets are distinct, so the order of the
  iteration does not show in the state.\<close>

definition sendAll :: "nat fset \<Rightarrow> frame \<Rightarrow> bridge \<Rightarrow> bridge" where
  "sendAll cs f s =
     s\<lparr>conns := (\<lambda>c. if c |\<in>| cs then (conns s c)\<lparr>written := written (conns s c) @ [f]\<rparr>
                       else conns s c)\<rparr>"

text \<open>\<^verbatim>\<open>deliverEnvelope\<close>, lines 449-477 (the runtime events it records are not part
  of the model).\<close>

definition deliverEnvelope :: "config \<Rightarrow> envelope \<Rightarrow> bridge \<Rightarrow> routed \<times> bridge" where
  "deliverEnvelope cfg e s =
     (if offline s (env_to e)
      then (let (q, s1) = getQueue (env_to e) s;
                q1 = q @ [e];
                q2 = (if length q1 > queueLimit cfg then tl q1 else q1)
            in (\<lparr>deliveredTo = 0, queued = True\<rparr>,
                s1\<lparr>pendingQueues := (pendingQueues s1)(env_to e \<mapsto> q2)\<rparr>))
      else (let recipients = recipientsOf s (env_to e)
            in (\<lparr>deliveredTo = fcard recipients, queued = False\<rparr>,
                sendAll recipients (Message e) s)))"

text \<open>\<^verbatim>\<open>flushQueue\<close>, lines 479-492: the loop shifts the oldest envelope off the
  queue and writes it, until the queue is empty.\<close>

function flushLoop :: "string \<Rightarrow> nat \<Rightarrow> nat \<Rightarrow> bridge \<Rightarrow> nat \<times> bridge" where
  "flushLoop k c delivered s =
     (case pendingQueues s k of
        Some (e # q) \<Rightarrow>
          flushLoop k c (delivered + 1)
            (sendJson c (Message e) (s\<lparr>pendingQueues := (pendingQueues s)(k \<mapsto> q)\<rparr>))
      | _ \<Rightarrow> (delivered, s))"
  by pat_completeness auto
termination
  by (relation "measure (\<lambda>(k, c, d, s). case pendingQueues s k of Some q \<Rightarrow> length q | None \<Rightarrow> 0)")
     (auto simp: sendJson_def)

definition flushQueue :: "string \<Rightarrow> nat \<Rightarrow> bridge \<Rightarrow> nat \<times> bridge" where
  "flushQueue k c s =
     (let (queue, s1) = getQueue k s
      in if length queue = 0 then (0, s1) else flushLoop k c 0 s1)"


section \<open>The stream listener\<close>

definition setBuffer :: "nat \<Rightarrow> string \<Rightarrow> bridge \<Rightarrow> bridge" where
  "setBuffer c b s = s\<lparr>conns := (conns s)(c := (conns s c)\<lparr>buffer := b\<rparr>)\<rparr>"

definition destroy :: "nat \<Rightarrow> bridge \<Rightarrow> bridge" where
  "destroy c s = s\<lparr>conns := (conns s)(c := (conns s c)\<lparr>sock := Destroyed\<rparr>)\<rparr>"

text \<open>\<^verbatim>\<open>v || randomId(pre)\<close>.\<close>

definition orRandomId :: "platform \<Rightarrow> string \<Rightarrow> json option \<Rightarrow> bridge \<Rightarrow> json \<times> bridge" where
  "orRandomId P pre v s =
     (if truthy v then (orElse v JNull, s)
      else (let (r, s1) = randomId P pre s in (JStr r, s1)))"

text \<open>The handlers return whether the loop over the lines goes on (\<^verbatim>\<open>continue\<close>)
  or the data handler returns, and the new state.\<close>

text \<open>Lines 557-583: a parsed frame on a connection that is not authenticated.  An
  exception of \<^verbatim>\<open>safeCompareHash\<close> is not caught anywhere: it ends the process.\<close>

definition handleAuth :: "platform \<Rightarrow> config \<Rightarrow> nat \<Rightarrow> json \<Rightarrow> bridge \<Rightarrow> bool \<times> bridge" where
  "handleAuth P cfg c msg s =
     (if getProp msg ''action'' \<noteq> Some (JStr ''auth'')
      then (True, sendJson c (ErrorFrame ''auth_required'') s)
      else
        (case lookupClient cfg (getProp msg ''clientId'') of
           None \<Rightarrow> (False, destroy c (sendJson c AuthFailed s))
         | Some clientDef \<Rightarrow>
             (case safeCompareHash P (orElse (getProp msg ''apiKey'') (JStr [])) (keySha256 clientDef) of
                Inl e \<Rightarrow> (False, s\<lparr>fault := Some e\<rparr>)
              | Inr ok \<Rightarrow>
                  if \<not> ok then (False, destroy c (sendJson c AuthFailed s))
                  else
                    (let s1 = s\<lparr>conns := (conns s)(c := (conns s c)
                                  \<lparr>authed := True, clientId := Some (client_id clientDef)\<rparr>)\<rparr>;
                         s2 = registerConnection (client_id clientDef) c s1;
                         (q, s3) = getQueue (client_id clientDef) s2;
                         (t, s4) = nowIso P s3;
                         s5 = sendJson c (AuthOk (client_id clientDef) (length q) t) s4;
                         (flushed, s6) = flushQueue (client_id clientDef) c s5
                     in (True, s6)))))"

text \<open>Lines 590-625: a \<^verbatim>\<open>send\<close> frame on an authenticated connection.\<close>

definition handleSend :: "platform \<Rightarrow> config \<Rightarrow> nat \<Rightarrow> json \<Rightarrow> bridge \<Rightarrow> bridge" where
  "handleSend P cfg c msg s =
     (case getProp msg ''to'' of
        Some (JStr t) \<Rightarrow>
          if t = [] then sendJson c (ErrorFrame ''missing_to'') s
          else if clientsById cfg t = None then sendJson c (ErrorFrame ''unknown_target'') s
          else
            (case clientId (conns s c) of
               None \<Rightarrow> sendJson c (ErrorFrame ''route_not_allowed'') s
             | Some sender \<Rightarrow>
                 if \<not> canRoute cfg sender t then sendJson c (ErrorFrame ''route_not_allowed'') s
                 else
                   (let (i, s1) = orRandomId P ''m'' (getProp msg ''id'') s;
                        (now, s2) = nowIso P s1;
                        e = \<lparr>env_id = i, env_from = sender, env_to = t,
                             env_type = orElse (getProp msg ''type'') (JStr ''message''),
                             payload = (case getProp msg ''payload'' of None \<Rightarrow> JNull | Some v \<Rightarrow> v),
                             correlationId = orElse (getProp msg ''correlationId'') JNull,
                             ts = now\<rparr>;
                        (r, s3) = deliverEnvelope cfg e s2
                    in sendJson c (Sent (env_id e) (deliveredTo r) (queued r) (ts e)) s3))
      | _ \<Rightarrow> sendJson c (ErrorFrame ''missing_to'') s)"

text \<open>Lines 627-635.  The registry always holds the client of an authenticated
  connection; were it missing, reading \<^verbatim>\<open>canSendTo\<close> of \<^verbatim>\<open>undefined\<close> would throw.\<close>

definition handleWhoami :: "platform \<Rightarrow> config \<Rightarrow> nat \<Rightarrow> bridge \<Rightarrow> bool \<times> bridge" where
  "handleWhoami P cfg c s =
     (case clientId (conns s c) of
        None \<Rightarrow> (False, s\<lparr>fault := Some TypeError\<rparr>)
      | Some k \<Rightarrow>
          (case clientsById cfg k of
             None \<Rightarrow> (False, s\<lparr>fault := Some TypeError\<rparr>)
           | Some cl \<Rightarrow>
               (let (t, s1) = nowIso P s
                in (True, sendJson c (WhoAmI k (canSendTo cl) t) s1))))"

text \<open>Lines 557-637: the dispatch on a parsed, truthy frame.\<close>

definition handleFrame :: "platform \<Rightarrow> config \<Rightarrow> nat \<Rightarrow> json \<Rightarrow> bridge \<Rightarrow> bool \<times> bridge" where
  "handleFrame P cfg c msg s =
     (if \<not> authed (conns s c) then handleAuth P cfg c msg s
      else if getProp msg ''action'' = Some (JStr ''ping'')
      then (let (t, s1) = nowIso P s in (True, sendJson c (Pong t) s1))
      else if getProp msg ''action'' = Some (JStr ''send'')
      then (True, handleSend P cfg c msg s)
      else if getProp msg ''action'' = Some (JStr ''whoami'')
      then handleWhoami P cfg c s
      else (True, sendJson c (ErrorFrame ''unknown_action'') s))"

text \<open>Lines 542-555: the checks on one trimmed line before the dispatch.\<close>

definition handleLine :: "platform \<Rightarrow> config \<Rightarrow> nat \<Rightarrow> string \<Rightarrow> bridge \<Rightarrow> bool \<times> bridge" where
  "handleLine P cfg c line s =
     (if line = [] then (True, s)
      else if length line > maxMessageBytes cfg
      then (True, sendJson c (ErrorFrame ''message_too_large'') s)
      else
        (case jsonParse P line of
           None \<Rightarrow> (True, sendJson c (ErrorFrame ''invalid_json'') s)
         | Some msg \<Rightarrow>
             if \<not> truthy (Some msg) then (True, sendJson c (ErrorFrame ''invalid_json'') s)
             else handleFrame P cfg c msg s))"

text \<open>\<^verbatim>\<open>buffer.indexOf("\n")\<close> with the two slices around it.\<close>

fun splitLine :: "string \<Rightarrow> (string \<times> string) option" where
  "splitLine [] = None"
| "splitLine (x # xs) =
     (if x = CHR 0x0A then Some ([], xs)
      else (case splitLine xs of None \<Rightarrow> None | Some (l, r) \<Rightarrow> Some (x # l, r)))"

text \<open>Lines 534-638: the loop over the complete lines of the buffer.\<close>

function processBuffer :: "platform \<Rightarrow> config \<Rightarrow> nat \<Rightarrow> string \<Rightarrow> bridge \<Rightarrow> bridge" where
  "processBuffer P cfg c buf s =
     (case splitLine buf of
        None \<Rightarrow> s
      | Some (raw, rest) \<Rightarrow>
          (let s0 = setBuffer c rest s;
               (go, s1) = handleLine P cfg c (trim P raw) s0
           in if go then processBuffer P cfg c rest s1 else s1))"
  by pat_completeness auto
termination
proof (relation "measure (\<lambda>(P, cfg, c, buf, s). length buf)")
  show "wf (measure (\<lambda>(P, cfg, c, buf, s). length buf))"
    by simp
next
  fix P :: platform and cfg :: config and c :: nat and buf :: string and s :: bridge
    and x2 :: "string \<times> string" and raw rest :: string and s0 :: bridge
    and y :: "bool \<times> bridge" and go :: bool and s1 :: bridge
  assume split: "splitLine buf = Some x2" "(raw, rest) = x2"
  have shorter: "length r < length b" if "splitLine b = Some (l, r)" for b l r
    using that by (induction b arbitrary: l r) (auto split: if_splits option.splits)
  from split have "splitLine buf = Some (raw, rest)"
    by simp
  then have "length rest < length buf"
    by (rule shorter)
  then show "((P, cfg, c, rest, s1), (P, cfg, c, buf, s)) \<in> measure (\<lambda>(P, cfg, c, buf, s). length buf)"
    by simp
qed

text \<open>Lines 525-639: the data handler of a connection.\<close>

definition onData :: "platform \<Rightarrow> config \<Rightarrow> nat \<Rightarrow> string \<Rightarrow> bridge \<Rightarrow> bridge" where
  "onData P cfg c chunk s =
     (let s1 = setBuffer c (buffer (conns s c) @ chunk) s
      in if length (buffer (conns s1 c)) > maxMessageBytes cfg * 2
         then destroy c (sendJson c (ErrorFrame ''buffer_exceeded'') s1)
         else processBuffer P cfg c (buffer (conns s1 c)) s1)"

text \<open>Lines 641-649: the close handler.\<close>

definition onClose :: "nat \<Rightarrow> bridge \<Rightarrow> bridge" where
  "onClose c s =
     (let s1 = (case clientId (conns s c) of
                  None \<Rightarrow> s
                | Some k \<Rightarrow> if k = [] then s else unregisterConnection k c s)
      in s1\<lparr>conns := (conns s1)(c := (conns s1 c)\<lparr>sock := Closed\<rparr>)\<rparr>)"

section \<open>Operator-initiated send\<close>

datatype adminResult =
    AdminError string
  | AdminThrown jsError
  | AdminOk envelope routed

text \<open>\<^verbatim>\<open>routeAdminSend\<close>, lines 729-752, on the parsed body of an authorized
  \<^verbatim>\<open>POST /api/send\<close>.  Reading a property of \<^verbatim>\<open>null\<close> throws; the HTTP handler
  catches it.\<close>

definition routeAdminSend :: "platform \<Rightarrow> config \<Rightarrow> json \<Rightarrow> bridge \<Rightarrow> adminResult \<times> bridge" where
  "routeAdminSend P cfg body s =
     (if body = JNull then (AdminThrown TypeError, s)
      else if \<not> truthy (getProp body ''asClient'') \<or> \<not> truthy (getProp body ''to'')
      then (AdminError ''asClient_and_to_required'', s)
      else
        (case (getProp body ''asClient'', getProp body ''to'') of
           (Some (JStr a), Some (JStr t)) \<Rightarrow>
             if clientsById cfg a = None \<or> clientsById cfg t = None
             then (AdminError ''unknown_client'', s)
             else if \<not> canRoute cfg a t then (AdminError ''route_not_allowed'', s)
             else
               (let (i, s1) = orRandomId P ''admin'' (getProp body ''id'') s;
                    (now, s2) = nowIso P s1;
                    e = \<lparr>env_id = i, env_from = a, env_to = t,
                         env_type = orElse (getProp body ''type'') (JStr ''message''),
                         payload = (case getProp body ''payload'' of None \<Rightarrow> JNull | Some v \<Rightarrow> v),
                         correlationId = orElse (getProp body ''correlationId'') JNull,
                         ts = now\<rparr>;
                    (r, s3) = deliverEnvelope cfg e s2
                in (AdminOk e r, s3))
         | _ \<Rightarrow> (AdminError ''unknown_client'', s)))"

section \<open>Events\<close>

text \<open>What the event loop of Node hands to the daemon: a connection is accepted (lines
  515-521 build its state; nothing has been written to its socket yet), a chunk arrives
  on a socket that is open, a socket's close event runs, the operator sends through the
  HTTP interface.  A chunk is given as the text that \<^verbatim>\<open>chunk.toString("utf8")\<close> makes
  of its bytes (line 526), which is what the handler appends to the buffer and measures.
  After an uncaught exception nothing runs any more.\<close>

datatype event =
    Connect nat
  | Data nat string
  | Close nat
  | AdminSend json

fun step :: "platform \<Rightarrow> config \<Rightarrow> event \<Rightarrow> bridge \<Rightarrow> bridge" where
  "step P cfg (Connect c) s =
     (if sock (conns s c) = Fresh
      then s\<lparr>conns := (conns s)(c := (conns s c)
             \<lparr>buffer := [], authed := False, clientId := None, sock := Open\<rparr>)\<rparr>
      else s)"
| "step P cfg (Data c chunk) s =
     (if sock (conns s c) = Open then onData P cfg c chunk s else s)"
| "step P cfg (Close c) s =
     (if sock (conns s c) = Open \<or> sock (conns s c) = Destroyed then onClose c s else s)"
| "step P cfg (AdminSend body) s = snd (routeAdminSend P cfg body s)"

fun run :: "platform \<Rightarrow> config \<Rightarrow> event list \<Rightarrow> bridge \<Rightarrow> bridge" where
  "run P cfg [] s = s"
| "run P cfg (ev # evs) s =
     (if fault s \<noteq> None then s else run P cfg evs (step P cfg ev s))"


section \<open>The HTTP control plane\<close>

text \<open>A request as the handler reads it: the path of the URL, the method, the
  \<^verbatim>\<open>x-bridge-token\<close> entry of \<^verbatim>\<open>req.headers\<close> (absent, a string or an array) and
  the \<^verbatim>\<open>id\<close> parameter of the query.\<close>

datatype headerValue = Absent | Single string | Multiple "string list"

record httpRequest =
  pathname :: string
  reqMethod :: string
  bridgeToken :: headerValue
  idParam :: "string option"


text \<open>\<^verbatim>\<open>isAuthorizedHttp\<close>, lines 698-707.\<close>

definition isAuthorizedHttp :: "platform \<Rightarrow> config \<Rightarrow> httpRequest \<Rightarrow> jsError + bool" where
  "isAuthorizedHttp P cfg req =
     (case adminTokenSha256 cfg of
        None \<Rightarrow> Inr False
      | Some h \<Rightarrow>
          if h = [] then Inr False
          else
            (case bridgeToken req of
               Single token \<Rightarrow>
                 if token = [] then Inr False else safeCompareHash P (JStr token) h
             | _ \<Rightarrow> Inr False))"




section \<open>The config loader\<close>










section \<open>Notions used in the statements\<close>

text \<open>The queue of a recipient as \<^verbatim>\<open>getQueue\<close> returns it: empty when the map has no
  entry.\<close>

definition queueOf :: "bridge \<Rightarrow> string \<Rightarrow> envelope list" where
  "queueOf s k = (case pendingQueues s k of None \<Rightarrow> [] | Some q \<Rightarrow> q)"

text \<open>The frames written to a socket between two states.\<close>

definition newFrames :: "bridge \<Rightarrow> bridge \<Rightarrow> nat \<Rightarrow> frame list" where
  "newFrames s s' c = drop (length (written (conns s c))) (written (conns s' c))"

text \<open>From \<open>s\<close> to \<open>s'\<close> every socket has only been appended to, and no queue has grown
  beyond the larger of its old length and the queue limit.\<close>

definition grows :: "config \<Rightarrow> bridge \<Rightarrow> bridge \<Rightarrow> bool" where
  "grows cfg s s' \<longleftrightarrow>
     (\<forall>c. prefix (written (conns s c)) (written (conns s' c))) \<and>
     (\<forall>k. length (queueOf s' k) \<le> max (length (queueOf s k)) (queueLimit cfg))"

text \<open>Every authenticated connection is bound to a client of the registry.\<close>

definition registered :: "config \<Rightarrow> bridge \<Rightarrow> bool" where
  "registered cfg s \<longleftrightarrow>
     (\<forall>c. authed (conns s c) \<longrightarrow>
        (\<exists>a cl. clientId (conns s c) = Some a \<and> clientsById cfg a = Some cl))"

section \<open>The validation rules of the config loader\<close>







section \<open>A small installation for the examples\<close>

text \<open>
  The examples run the model on a platform whose digest is a checksum standing in for
  SHA-256, whose parser knows the texts of the examples (each of them JSON, with the
  value that \<^verbatim>\<open>JSON.parse\<close> gives for it) and whose \<open>trim\<close> strips ASCII white space.
\<close>

definition toyDigest :: "string \<Rightarrow> 256 word" where
  "toyDigest s = of_nat (sum_list (map of_char s))"

text \<open>Three clients; the stored hash of \<open>carol\<close> is not a hash.  Frames of up to 64
  bytes, queues of up to 3 envelopes, no admin token.\<close>

definition aliceClient :: client where
  "aliceClient = \<lparr>client_id = ''alice'', keySha256 = replicate 62 CHR ''0'' @ ''9c'',
     canSendTo = [''bob'']\<rparr>"

definition bobClient :: client where
  "bobClient = \<lparr>client_id = ''bob'', keySha256 = replicate 62 CHR ''0'' @ ''9d'',
     canSendTo = [''*'']\<rparr>"

definition carolClient :: client where
  "carolClient = \<lparr>client_id = ''carol'', keySha256 = ''not-a-hash'', canSendTo = []\<rparr>"

definition demoConfig :: config where
  "demoConfig = \<lparr>clients = [aliceClient, bobClient, carolClient],
     maxMessageBytes = 64, queueLimit = 3, adminTokenSha256 = None\<rparr>"


definition badAdminConfig :: config where
  "badAdminConfig = demoConfig\<lparr>adminTokenSha256 := Some ''zz''\<rparr>"

text \<open>The lines that the clients of the examples send: \<open>auth\<close> frames (one with the
  key of another client, one whose key is a JSON object with a member \<open>toString\<close>), a
  \<open>send\<close> frame to \<open>bob\<close> with a digit as payload, a \<open>ping\<close> frame of
  \<open>26 + n\<close> bytes.\<close>

definition authAlice :: string where
  \<open>authAlice = ''{"action":"auth","clientId":"alice","apiKey":"k1"}''\<close>

definition authBob :: string where
  \<open>authBob = ''{"action":"auth","clientId":"bob","apiKey":"k2"}''\<close>

definition authAliceWrongKey :: string where
  \<open>authAliceWrongKey = ''{"action":"auth","clientId":"alice","apiKey":"k2"}''\<close>

definition authCarolObjectKey :: string where
  \<open>authCarolObjectKey = ''{"action":"auth","clientId":"carol","apiKey":{"toString":1}}''\<close>

definition carolObjectKeyMsg :: json where
  "carolObjectKeyMsg = JObj [(''action'', JStr ''auth''), (''clientId'', JStr ''carol''),
     (''apiKey'', JObj [(''toString'', JNum ''1'')])]"

definition bobAuthMsg :: json where
  "bobAuthMsg = JObj [(''action'', JStr ''auth''), (''clientId'', JStr ''bob''),
     (''apiKey'', JStr ''k2'')]"

definition sendBob :: "char \<Rightarrow> string" where
  \<open>sendBob n = ''{"action":"send","to":"bob","payload":'' @ [n] @ ''}''\<close>

definition paddedPing :: "nat \<Rightarrow> string" where
  \<open>paddedPing n = ''{"action":"ping","pad":"'' @ replicate n CHR ''x'' @ ''"}''\<close>

text \<open>A configuration file whose only client gives a string as allowlist.\<close>

definition laxConfigText :: string where
  \<open>laxConfigText = ''{"clients":[{"id":"alice","keySha256":"'' @ keySha256 aliceClient @
     ''","canSendTo":"bob"}]}''\<close>

definition laxConfig :: json where
  "laxConfig = JObj [(''clients'', JArr [JObj [(''id'', JStr ''alice''),
     (''keySha256'', JStr (keySha256 aliceClient)), (''canSendTo'', JStr ''bob'')]])]"

definition toyParse :: "string \<Rightarrow> json option" where
  "toyParse line =
     (if line = authAlice
      then Some (JObj [(''action'', JStr ''auth''), (''clientId'', JStr ''alice''),
                       (''apiKey'', JStr ''k1'')])
      else if line = authAliceWrongKey
      then Some (JObj [(''action'', JStr ''auth''), (''clientId'', JStr ''alice''),
                       (''apiKey'', JStr ''k2'')])
      else if line = authBob then Some bobAuthMsg
      else if line = authCarolObjectKey then Some carolObjectKeyMsg
      else if line = laxConfigText then Some laxConfig
      else if line = ''{}'' then Some (JObj [])
      else if line = paddedPing (length line - 26)
      then Some (JObj [(''action'', JStr ''ping''),
                       (''pad'', JStr (replicate (length line - 26) CHR ''x''))])
      else if line \<noteq> [] \<and> last (butlast line) \<in> set ''123456789'' \<and>
              line = sendBob (last (butlast line))
      then Some (JObj [(''action'', JStr ''send''), (''to'', JStr ''bob''),
                       (''payload'', JNum [last (butlast line)])])
      else None)"

definition isSpace :: "char \<Rightarrow> bool" where
  "isSpace ch = (ch \<in> set [CHR 0x20, CHR 0x09, CHR 0x0A, CHR 0x0B, CHR 0x0C, CHR 0x0D])"

definition toyTrim :: "string \<Rightarrow> string" where
  "toyTrim s = rev (dropWhile isSpace (rev (dropWhile isSpace s)))"

definition toyPlatform :: platform where
  "toyPlatform = \<lparr>digest = toyDigest, jsonParse = toyParse, trim = toyTrim,
     clock = (\<lambda>n. replicate n CHR ''t''), randomHex = (\<lambda>n. replicate n CHR ''a'')\<rparr>"

definition newline :: string where
  "newline = [CHR 0x0A]"

text \<open>States of the examples: \<open>alice\<close> has connected on socket 1 and authenticated;
  \<open>bob\<close> has done so on the sockets 1 and 2; \<open>alice\<close> has sent three envelopes to
  \<open>bob\<close>, who was not connected, and then a connection has been accepted on socket 2.\<close>

definition aliceOnline :: bridge where
  "aliceOnline = run toyPlatform demoConfig [Connect 1, Data 1 (authAlice @ newline)] init"

definition twoListeners :: bridge where
  "twoListeners = run toyPlatform demoConfig
     [Connect 1, Data 1 (authBob @ newline), Connect 2, Data 2 (authBob @ newline)] init"

definition bobQueued :: bridge where
  "bobQueued = run toyPlatform demoConfig
     [Connect 1, Data 1 (authAlice @ newline), Data 1 (sendBob CHR ''1'' @ newline),
      Data 1 (sendBob CHR ''2'' @ newline @ sendBob CHR ''3'' @ newline), Connect 2] init"

text \<open>Envelopes and parsed frames of the examples: \<open>send\<close> frames without a target, to
  an unknown client, to a client that \<open>alice\<close> may not reach, and one that claims
  another sender; an \<open>auth\<close> frame for \<open>carol\<close>; the body of an operator's send.\<close>

definition demoEnvelope :: "string \<Rightarrow> envelope" where
  "demoEnvelope n = \<lparr>env_id = JStr (''m_'' @ n), env_from = ''alice'', env_to = ''bob'',
     env_type = JStr ''message'', payload = JNum n, correlationId = JNull, ts = ''t''\<rparr>"

definition sendNoTarget :: json where
  "sendNoTarget = JObj [(''action'', JStr ''send''), (''to'', JNum ''7'')]"

definition sendToDave :: json where
  "sendToDave = JObj [(''action'', JStr ''send''), (''to'', JStr ''dave'')]"

definition sendToCarol :: json where
  "sendToCarol = JObj [(''action'', JStr ''send''), (''to'', JStr ''carol''), (''payload'', JNull)]"

definition forgedSend :: json where
  "forgedSend = JObj [(''action'', JStr ''send''), (''to'', JStr ''bob''),
     (''from'', JStr ''mallory''), (''payload'', JNum ''1'')]"

definition carolAuthMsg :: json where
  "carolAuthMsg = JObj [(''action'', JStr ''auth''), (''clientId'', JStr ''carol''),
     (''apiKey'', JStr ''not-a-hash'')]"

definition adminBody :: json where
  "adminBody = JObj [(''asClient'', JStr ''bob''), (''to'', JStr ''alice''),
     (''type'', JStr ''response'')]"


definition statusRequest :: "headerValue \<Rightarrow> httpRequest" where
  "statusRequest token = \<lparr>pathname = ''/api/status'', reqMethod = ''GET'',
     bridgeToken = token, idParam = None\<rparr>"

section \<open>Effects of the operations\<close>

declare flushLoop.simps [simp del] processBuffer.simps [simp del]

lemma offline_iff: "offline s k \<longleftrightarrow> recipientsOf s k = {||}"
  by (auto simp: offline_def recipientsOf_def split: option.splits)

lemma getQueue_fst: "fst (getQueue k s) = queueOf s k"
  by (simp add: getQueue_def queueOf_def split: option.splits)

lemma getQueue_snd_conns: "conns (snd (getQueue k s)) = conns s"
  by (simp add: getQueue_def split: option.splits)

lemma flushLoop_effect:
  "pendingQueues s k = Some q \<Longrightarrow>
   flushLoop k c d s =
     (d + length q,
      s\<lparr>pendingQueues := (pendingQueues s)(k \<mapsto> []),
        conns := (conns s)(c := (conns s c)\<lparr>written := written (conns s c) @ map Message q\<rparr>)\<rparr>)"
proof (induction q arbitrary: s d)
  case Nil
  then have "(pendingQueues s)(k \<mapsto> []) = pendingQueues s"
    by (simp add: fun_upd_idem)
  with Nil show ?case
    by (simp add: flushLoop.simps)
next
  case (Cons e q)
  show ?case
    by (subst flushLoop.simps) (simp add: Cons.prems Cons.IH sendJson_def fun_upd_def cong: if_cong)
qed

lemma flushQueue_effect:
  "snd (flushQueue k c s) =
     s\<lparr>pendingQueues := (pendingQueues s)(k \<mapsto> []),
       conns := (conns s)(c := (conns s c)\<lparr>written := written (conns s c) @ map Message (queueOf s k)\<rparr>)\<rparr>"
proof (cases "pendingQueues s k")
  case None
  then show ?thesis
    by (simp add: flushQueue_def getQueue_def queueOf_def)
next
  case (Some q)
  show ?thesis
  proof (cases q)
    case Nil
    with Some have "(pendingQueues s)(k \<mapsto> []) = pendingQueues s"
      by (simp add: fun_upd_idem)
    with Some Nil show ?thesis
      by (simp add: flushQueue_def getQueue_def queueOf_def)
  next
    case (Cons e q')
    with Some show ?thesis
      by (simp add: flushQueue_def getQueue_def queueOf_def flushLoop_effect)
  qed
qed

lemma getQueue_snd_pending:
  "pendingQueues (snd (getQueue k s)) = (pendingQueues s)(k \<mapsto> queueOf s k)"
  by (auto simp: getQueue_def queueOf_def split: option.splits)

lemma getQueue_snd_queueOf: "queueOf (snd (getQueue k s)) k' = queueOf s k'"
  by (simp add: queueOf_def getQueue_snd_pending)

lemma getQueue_snd_other:
  "activeConnections (snd (getQueue k s)) = activeConnections s"
  "tick (snd (getQueue k s)) = tick s"
  "fault (snd (getQueue k s)) = fault s"
  by (simp_all add: getQueue_def split: option.splits)

lemma deliverEnvelope_conns:
  "conns (snd (deliverEnvelope cfg e s)) c =
     (conns s c)\<lparr>written := written (conns s c) @
        (if c |\<in>| recipientsOf s (env_to e) then [Message e] else [])\<rparr>"
  by (simp add: deliverEnvelope_def Let_def split_beta getQueue_snd_conns sendAll_def offline_iff)

lemma deliverEnvelope_queueOf:
  "queueOf (snd (deliverEnvelope cfg e s)) k =
     (if recipientsOf s (env_to e) = {||} \<and> k = env_to e
      then (if length (queueOf s k @ [e]) > queueLimit cfg
            then tl (queueOf s k @ [e]) else queueOf s k @ [e])
      else queueOf s k)"
  by (simp add: deliverEnvelope_def Let_def split_beta getQueue_fst offline_iff sendAll_def)
     (simp add: queueOf_def getQueue_snd_pending)

lemma deliverEnvelope_other:
  "activeConnections (snd (deliverEnvelope cfg e s)) = activeConnections s"
  "tick (snd (deliverEnvelope cfg e s)) = tick s"
  "fault (snd (deliverEnvelope cfg e s)) = fault s"
  by (simp_all add: deliverEnvelope_def Let_def split_beta getQueue_snd_other sendAll_def)

lemma flushQueue_queueOf:
  "queueOf (snd (flushQueue k c s)) k' = (if k' = k then [] else queueOf s k')"
  by (simp add: flushQueue_effect queueOf_def)

lemma flushQueue_conns:
  "conns (snd (flushQueue k c s)) c' =
     (if c' = c then (conns s c)\<lparr>written := written (conns s c) @ map Message (queueOf s k)\<rparr>
      else conns s c')"
  by (simp add: flushQueue_effect)

lemma flushQueue_other:
  "activeConnections (snd (flushQueue k c s)) = activeConnections s"
  "tick (snd (flushQueue k c s)) = tick s"
  "fault (snd (flushQueue k c s)) = fault s"
  by (simp_all add: flushQueue_effect)

lemma grows_refl: "grows cfg s s"
  by (simp add: grows_def)

lemma grows_trans: "grows cfg s s1 \<Longrightarrow> grows cfg s1 s2 \<Longrightarrow> grows cfg s s2"
  unfolding grows_def
  by (meson prefix_order.order_trans le_max_iff_disj max.boundedI order_trans)

lemma grows_same:
  "(\<And>c. written (conns s' c) = written (conns s c)) \<Longrightarrow> pendingQueues s' = pendingQueues s
     \<Longrightarrow> grows cfg s s'"
  by (simp add: grows_def queueOf_def)

lemma grows_sendJson: "grows cfg s (sendJson c f s)"
  by (simp add: grows_def sendJson_def queueOf_def)

lemma grows_deliverEnvelope: "grows cfg s (snd (deliverEnvelope cfg e s))"
  by (auto simp: grows_def deliverEnvelope_conns deliverEnvelope_queueOf)

lemma grows_handleSend: "grows cfg s (handleSend P cfg c msg s)"
proof -
  have tickonly: "grows cfg s s1" if "conns s1 = conns s" "pendingQueues s1 = pendingQueues s" for s1
    using that by (simp add: grows_same)
  show ?thesis
    unfolding handleSend_def
    by (auto simp: Let_def split_beta grows_sendJson orRandomId_def randomId_def nowIso_def
          split: option.splits json.splits
          intro!: grows_trans [OF _ grows_sendJson] grows_trans [OF _ grows_deliverEnvelope] tickonly)
qed

lemma registerConnection_other:
  "conns (registerConnection k c s) = conns s"
  "pendingQueues (registerConnection k c s) = pendingQueues s"
  "tick (registerConnection k c s) = tick s"
  "fault (registerConnection k c s) = fault s"
  by (simp_all add: registerConnection_def Let_def)

lemma registerConnection_queueOf: "queueOf (registerConnection k c s) k' = queueOf s k'"
  by (simp add: queueOf_def registerConnection_other)

lemma queueOf_update:
  "queueOf (s\<lparr>conns := x\<rparr>) k = queueOf s k"
  "queueOf (s\<lparr>tick := t\<rparr>) k = queueOf s k"
  "queueOf (s\<lparr>fault := e\<rparr>) k = queueOf s k"
  "queueOf (s\<lparr>activeConnections := a\<rparr>) k = queueOf s k"
  by (simp_all add: queueOf_def)

lemma registerConnection_active_conns:
  "activeConnections (registerConnection k c (s\<lparr>conns := x\<rparr>)) =
     activeConnections (registerConnection k c s)"
  by (simp add: registerConnection_def Let_def)

lemma handleAuth_refused:
  "getProp msg ''action'' = Some (JStr ''auth'') \<Longrightarrow>
   lookupClient cfg (getProp msg ''clientId'') = None \<or>
   (\<exists>cl. lookupClient cfg (getProp msg ''clientId'') = Some cl \<and>
      safeCompareHash P (orElse (getProp msg ''apiKey'') (JStr [])) (keySha256 cl) = Inr False) \<Longrightarrow>
   handleAuth P cfg c msg s = (False, destroy c (sendJson c AuthFailed s))"
  by (auto simp: handleAuth_def)

lemma handleAuth_thrown:
  "getProp msg ''action'' = Some (JStr ''auth'') \<Longrightarrow>
   lookupClient cfg (getProp msg ''clientId'') = Some cl \<Longrightarrow>
   safeCompareHash P (orElse (getProp msg ''apiKey'') (JStr [])) (keySha256 cl) = Inl e \<Longrightarrow>
   handleAuth P cfg c msg s = (False, s\<lparr>fault := Some e\<rparr>)"
  by (simp add: handleAuth_def)

lemma handleAuth_other:
  "getProp msg ''action'' \<noteq> Some (JStr ''auth'') \<Longrightarrow>
   handleAuth P cfg c msg s = (True, sendJson c (ErrorFrame ''auth_required'') s)"
  by (simp add: handleAuth_def)

lemma handleAuth_success:
  assumes "getProp msg ''action'' = Some (JStr ''auth'')"
    and "lookupClient cfg (getProp msg ''clientId'') = Some cl"
    and "safeCompareHash P (orElse (getProp msg ''apiKey'') (JStr [])) (keySha256 cl) = Inr True"
  shows "fst (handleAuth P cfg c msg s) = True"
    and "conns (snd (handleAuth P cfg c msg s)) c' =
          (if c' = c
           then (conns s c)\<lparr>authed := True, clientId := Some (client_id cl),
                  written := written (conns s c) @
                    AuthOk (client_id cl) (length (queueOf s (client_id cl))) (clock P (tick s)) #
                    map Message (queueOf s (client_id cl))\<rparr>
           else conns s c')"
    and "queueOf (snd (handleAuth P cfg c msg s)) k =
          (if k = client_id cl then [] else queueOf s k)"
    and "activeConnections (snd (handleAuth P cfg c msg s)) =
          activeConnections (registerConnection (client_id cl) c s)"
    and "fault (snd (handleAuth P cfg c msg s)) = fault s"
  using assms
  by (simp_all add: handleAuth_def Let_def split_beta flushQueue_conns flushQueue_queueOf
        flushQueue_other sendJson_def nowIso_def getQueue_snd_conns getQueue_snd_queueOf
        getQueue_snd_other getQueue_fst registerConnection_other registerConnection_queueOf
        queueOf_update registerConnection_active_conns)

lemma grows_destroy: "grows cfg s (destroy c s)"
  by (simp add: grows_def destroy_def queueOf_def)

lemma grows_setBuffer: "grows cfg s (setBuffer c b s)"
  by (simp add: grows_def setBuffer_def queueOf_def)

lemma grows_handleAuth: "grows cfg s (snd (handleAuth P cfg c msg s))"
proof (cases "getProp msg ''action'' = Some (JStr ''auth'')")
  case False
  then show ?thesis
    by (simp add: handleAuth_other grows_sendJson)
next
  case auth: True
  show ?thesis
  proof (cases "lookupClient cfg (getProp msg ''clientId'')")
    case None
    with auth show ?thesis
      by (simp add: handleAuth_refused grows_trans [OF grows_sendJson grows_destroy])
  next
    case (Some cl)
    show ?thesis
    proof (cases "safeCompareHash P (orElse (getProp msg ''apiKey'') (JStr [])) (keySha256 cl)")
      case (Inl e)
      with auth Some show ?thesis
        by (simp add: handleAuth_thrown grows_same)
    next
      case (Inr ok)
      show ?thesis
      proof (cases ok)
        case False
        with auth Some Inr show ?thesis
          by (simp add: handleAuth_refused grows_trans [OF grows_sendJson grows_destroy])
      next
        case True
        with auth Some Inr show ?thesis
          by (simp add: grows_def handleAuth_success)
      qed
    qed
  qed
qed

lemma grows_handleWhoami: "grows cfg s (snd (handleWhoami P cfg c s))"
  by (auto simp: handleWhoami_def nowIso_def Let_def grows_def sendJson_def queueOf_def
        split: option.splits)

lemma grows_handleFrame: "grows cfg s (snd (handleFrame P cfg c msg s))"
proof -
  have pong: "grows cfg s (sendJson c f (s\<lparr>tick := t\<rparr>))" for f t
    by (simp add: grows_def sendJson_def queueOf_def)
  show ?thesis
    by (simp add: handleFrame_def grows_handleAuth grows_handleSend grows_handleWhoami
          grows_sendJson nowIso_def pong)
qed

lemma grows_handleLine: "grows cfg s (snd (handleLine P cfg c line s))"
  by (simp add: handleLine_def grows_refl grows_sendJson grows_handleFrame split: option.splits)

lemma processBuffer_none: "splitLine buf = None \<Longrightarrow> processBuffer P cfg c buf s = s"
  by (subst processBuffer.simps) simp

lemma processBuffer_line:
  "splitLine buf = Some (raw, rest) \<Longrightarrow>
   processBuffer P cfg c buf s =
     (if fst (handleLine P cfg c (trim P raw) (setBuffer c rest s))
      then processBuffer P cfg c rest (snd (handleLine P cfg c (trim P raw) (setBuffer c rest s)))
      else snd (handleLine P cfg c (trim P raw) (setBuffer c rest s)))"
  by (subst processBuffer.simps) (simp add: split_beta)

lemma grows_processBuffer: "grows cfg s (processBuffer P cfg c buf s)"
proof (induction P cfg c buf s rule: processBuffer.induct)
  case (1 P cfg c buf s)
  show ?case
  proof (cases "splitLine buf")
    case None
    then show ?thesis
      by (simp add: processBuffer_none grows_refl)
  next
    case (Some lr)
    obtain raw rest where lr: "lr = (raw, rest)"
      by (cases lr)
    let ?s0 = "setBuffer c rest s"
    let ?h = "handleLine P cfg c (trim P raw) ?s0"
    have split: "splitLine buf = Some (raw, rest)"
      using Some lr by simp
    have step: "grows cfg s (snd ?h)"
      by (rule grows_trans [OF grows_setBuffer grows_handleLine])
    show ?thesis
    proof (cases "fst ?h")
      case True
      have "grows cfg (snd ?h) (processBuffer P cfg c rest (snd ?h))"
        by (rule "1.IH" [of lr raw rest ?s0 ?h "fst ?h" "snd ?h"]) (use Some lr True in \<open>simp_all add: prod_eq_iff\<close>)
      with step have "grows cfg s (processBuffer P cfg c rest (snd ?h))"
        by (rule grows_trans)
      then show ?thesis
        by (simp only: processBuffer_line [OF split] True if_True)
    next
      case False
      from step show ?thesis
        by (simp only: processBuffer_line [OF split] False if_False)
    qed
  qed
qed

lemma grows_onData: "grows cfg s (onData P cfg c chunk s)"
  by (simp add: onData_def Let_def grows_trans [OF grows_setBuffer grows_processBuffer]
        grows_trans [OF grows_setBuffer grows_trans [OF grows_sendJson grows_destroy]])

lemma unregisterConnection_other:
  "conns (unregisterConnection k c s) = conns s"
  "pendingQueues (unregisterConnection k c s) = pendingQueues s"
  "tick (unregisterConnection k c s) = tick s"
  "fault (unregisterConnection k c s) = fault s"
  by (simp_all add: unregisterConnection_def Let_def split: option.splits)

lemma grows_onClose: "grows cfg s (onClose c s)"
  by (auto simp: onClose_def Let_def unregisterConnection_other intro!: grows_same
        split: option.splits)

lemma grows_routeAdminSend: "grows cfg s (snd (routeAdminSend P cfg body s))"
proof -
  have tickonly: "grows cfg s s1" if "conns s1 = conns s" "pendingQueues s1 = pendingQueues s" for s1
    using that by (simp add: grows_same)
  show ?thesis
    unfolding routeAdminSend_def
    by (auto simp: Let_def split_beta grows_refl orRandomId_def randomId_def nowIso_def
          split: option.splits json.splits
          intro!: grows_trans [OF _ grows_deliverEnvelope] tickonly)
qed

lemma grows_step: "grows cfg s (step P cfg ev s)"
  by (cases ev) (auto simp: grows_onData grows_onClose grows_routeAdminSend grows_refl
        intro!: grows_same)

lemma grows_run: "grows cfg s (run P cfg evs s)"
proof (induction evs arbitrary: s)
  case Nil
  show ?case by (simp add: grows_refl)
next
  case (Cons ev evs)
  show ?case
    using grows_trans [OF grows_step Cons.IH] by (simp add: grows_refl)
qed

lemma enqueue_drop:
  assumes "length q \<le> L"
  shows "(if length (q @ [e]) > L then tl (q @ [e]) else q @ [e]) =
           drop (Suc (length q) - L) (q @ [e])"
proof (cases "length q = L")
  case True
  have "drop (Suc 0) (q @ [e]) = tl (q @ [e])"
    by (simp only: drop_Suc drop_0)
  with True show ?thesis
    by simp
next
  case False
  with assms have "length q < L"
    by simp
  then show ?thesis
    by simp
qed

lemma deliverSeq_offline:
  "(\<forall>e \<in> set es. env_to e = k) \<Longrightarrow> recipientsOf s k = {||} \<Longrightarrow>
   activeConnections (foldl (\<lambda>s e. snd (deliverEnvelope cfg e s)) s es) = activeConnections s \<and>
   conns (foldl (\<lambda>s e. snd (deliverEnvelope cfg e s)) s es) = conns s"
proof (induction es arbitrary: s)
  case Nil
  show ?case by simp
next
  case (Cons e es)
  let ?s1 = "snd (deliverEnvelope cfg e s)"
  have k: "env_to e = k" and rest: "\<forall>e \<in> set es. env_to e = k"
    using Cons.prems(1) by simp_all
  have act: "activeConnections ?s1 = activeConnections s"
    by (simp add: deliverEnvelope_other)
  then have off: "recipientsOf ?s1 k = {||}"
    using Cons.prems(2) by (simp add: recipientsOf_def)
  have con: "conns ?s1 = conns s"
    using Cons.prems(2) k by (auto simp: deliverEnvelope_conns)
  show ?case
    using Cons.IH [OF rest off] act con by simp
qed

lemma drop_snoc_shift:
  assumes "L \<le> length xs"
  shows "drop (Suc 0) (drop (length xs - L) xs @ [e]) = drop (length (xs @ [e]) - L) (xs @ [e])"
proof -
  let ?m = "length xs - L"
  have "drop ?m xs @ [e] = drop ?m (xs @ [e])"
    by simp
  then have "drop (Suc 0) (drop ?m xs @ [e]) = drop (Suc 0 + ?m) (xs @ [e])"
    by (simp only: drop_drop)
  moreover have "Suc 0 + ?m = length (xs @ [e]) - L"
    using assms by simp
  ultimately show ?thesis
    by simp
qed

lemma deliverSeq_queue:
  assumes "\<forall>e \<in> set es. env_to e = k" and "recipientsOf s k = {||}"
    and "length (queueOf s k) \<le> queueLimit cfg"
  shows "queueOf (foldl (\<lambda>s e. snd (deliverEnvelope cfg e s)) s es) k =
           drop (length (queueOf s k @ es) - queueLimit cfg) (queueOf s k @ es)"
  using assms
proof (induction es rule: rev_induct)
  case Nil
  then show ?case by simp
next
  case (snoc e es)
  let ?S = "foldl (\<lambda>s e. snd (deliverEnvelope cfg e s)) s es"
  let ?xs = "queueOf s k @ es"
  let ?L = "queueLimit cfg"
  have k: "env_to e = k" and rest: "\<forall>e \<in> set es. env_to e = k"
    using snoc.prems(1) by simp_all
  have q: "queueOf ?S k = drop (length ?xs - ?L) ?xs"
    using snoc.IH [OF rest snoc.prems(2,3)] .
  have off: "recipientsOf ?S k = {||}"
    using deliverSeq_offline [OF rest snoc.prems(2), of cfg] snoc.prems(2)
    by (simp add: recipientsOf_def)
  have len: "length (queueOf ?S k) \<le> ?L"
    unfolding q by simp
  have "queueOf (snd (deliverEnvelope cfg e ?S)) k =
          drop (Suc (length (queueOf ?S k)) - ?L) (queueOf ?S k @ [e])"
    using off k enqueue_drop [OF len, of e] by (simp add: deliverEnvelope_queueOf)
  also have "\<dots> = drop (length (?xs @ [e]) - ?L) (?xs @ [e])"
  proof (cases "length ?xs < ?L")
    case True
    then show ?thesis unfolding q by simp
  next
    case False
    then have L: "?L \<le> length ?xs"
      by simp
    then have "length (drop (length ?xs - ?L) ?xs) = ?L"
      by simp
    then have "length (queueOf ?S k) = ?L"
      by (simp only: q)
    then have a: "Suc (length (queueOf ?S k)) - ?L = Suc 0"
      by simp
    have "drop (Suc (length (queueOf ?S k)) - ?L) (queueOf ?S k @ [e]) =
            drop (Suc 0) (queueOf ?S k @ [e])"
      by (simp only: a)
    also have "\<dots> = drop (Suc 0) (drop (length ?xs - ?L) ?xs @ [e])"
      by (simp only: q)
    also have "\<dots> = drop (length (?xs @ [e]) - ?L) (?xs @ [e])"
      by (rule drop_snoc_shift [OF L])
    finally show ?thesis .
  qed
  finally show ?case by simp
qed

lemma orRandomId_state:
  "conns (snd (orRandomId P pre v s)) = conns s"
  "pendingQueues (snd (orRandomId P pre v s)) = pendingQueues s"
  "activeConnections (snd (orRandomId P pre v s)) = activeConnections s"
  "fault (snd (orRandomId P pre v s)) = fault s"
  by (simp_all add: orRandomId_def randomId_def Let_def)

lemma handleSend_routed:
  assumes "getProp msg ''to'' = Some (JStr t)" and "t \<noteq> []" and "clientsById cfg t \<noteq> None"
    and "clientId (conns s c) = Some a" and "canRoute cfg a t"
  shows "\<exists>e s0. env_from e = a \<and> env_to e = t \<and>
           conns s0 = conns s \<and> pendingQueues s0 = pendingQueues s \<and>
           activeConnections s0 = activeConnections s \<and> fault s0 = fault s \<and>
           handleSend P cfg c msg s =
             sendJson c (Sent (env_id e) (deliveredTo (fst (deliverEnvelope cfg e s0)))
                           (queued (fst (deliverEnvelope cfg e s0))) (ts e))
               (snd (deliverEnvelope cfg e s0))"
proof -
  define s1 where "s1 = snd (orRandomId P ''m'' (getProp msg ''id'') s)"
  define s2 where "s2 = s1\<lparr>tick := Suc (tick s1)\<rparr>"
  define e where "e = \<lparr>env_id = fst (orRandomId P ''m'' (getProp msg ''id'') s),
      env_from = a, env_to = t,
      env_type = orElse (getProp msg ''type'') (JStr ''message''),
      payload = (case getProp msg ''payload'' of None \<Rightarrow> JNull | Some v \<Rightarrow> v),
      correlationId = orElse (getProp msg ''correlationId'') JNull,
      ts = clock P (tick s1)\<rparr>"
  obtain tc where tc: "clientsById cfg t = Some tc"
    using assms(3) by auto
  have "handleSend P cfg c msg s =
      sendJson c (Sent (env_id e) (deliveredTo (fst (deliverEnvelope cfg e s2)))
                    (queued (fst (deliverEnvelope cfg e s2))) (ts e))
        (snd (deliverEnvelope cfg e s2))"
    using assms(1,2,4,5) tc
    by (simp add: handleSend_def Let_def split_beta nowIso_def e_def s2_def s1_def)
  moreover have "conns s2 = conns s" "pendingQueues s2 = pendingQueues s"
    "activeConnections s2 = activeConnections s" "fault s2 = fault s"
    by (simp_all add: s2_def s1_def orRandomId_state)
  moreover have "env_from e = a" "env_to e = t"
    by (simp_all add: e_def)
  ultimately show ?thesis
    by blast
qed

lemma canRoute_iff:
  "clientsById cfg a = Some cl \<Longrightarrow>
   canRoute cfg a t \<longleftrightarrow> ''*'' \<in> set (canSendTo cl) \<or> t \<in> set (canSendTo cl)"
  by (simp add: canRoute_def)

lemma routed_frames:
  assumes "conns s0 = conns s"
  shows "written (conns (sendJson c f (snd (deliverEnvelope cfg e s0))) c') =
           written (conns s c') @
           (if c' |\<in>| recipientsOf s0 (env_to e) then [Message e] else []) @
           (if c' = c then [f] else [])"
  using assms by (simp add: sendJson_def deliverEnvelope_conns)

lemma routed_queue:
  assumes "pendingQueues s0 = pendingQueues s"
    and "e' \<in> set (queueOf (sendJson c f (snd (deliverEnvelope cfg e s0))) k)"
  shows "e' \<in> set (queueOf s k) \<or> e' = e"
proof -
  have same: "queueOf s0 k = queueOf s k"
    using assms(1) by (simp add: queueOf_def)
  have "queueOf (sendJson c f (snd (deliverEnvelope cfg e s0))) k =
          queueOf (snd (deliverEnvelope cfg e s0)) k"
    by (simp add: queueOf_def sendJson_def)
  with assms(2) have "e' \<in> set (queueOf (snd (deliverEnvelope cfg e s0)) k)"
    by simp
  then have "e' \<in> set (queueOf s0 k @ [e])"
    by (auto simp: deliverEnvelope_queueOf split: if_splits dest: list.set_sel(2) [rotated])
  with same show ?thesis
    by auto
qed

text \<open>What a frame on an authenticated connection can do to the state.\<close>

lemma handleFrame_authed_outcome:
  assumes "authed (conns s c)" and "clientId (conns s c) = Some a"
  shows "(\<exists>f s0. (\<forall>e. f \<noteq> Message e) \<and> conns s0 = conns s \<and> pendingQueues s0 = pendingQueues s \<and>
            snd (handleFrame P cfg c msg s) = sendJson c f s0) \<or>
         (\<exists>x. snd (handleFrame P cfg c msg s) = s\<lparr>fault := x\<rparr>) \<or>
         (\<exists>f e s0. (\<forall>e. f \<noteq> Message e) \<and> env_from e = a \<and>
            conns s0 = conns s \<and> pendingQueues s0 = pendingQueues s \<and>
            snd (handleFrame P cfg c msg s) = sendJson c f (snd (deliverEnvelope cfg e s0)))"
proof -
  consider (ping) "getProp msg ''action'' = Some (JStr ''ping'')"
    | (send) "getProp msg ''action'' = Some (JStr ''send'')"
    | (whoami) "getProp msg ''action'' = Some (JStr ''whoami'')"
    | (other) "getProp msg ''action'' \<noteq> Some (JStr ''ping'')"
        "getProp msg ''action'' \<noteq> Some (JStr ''send'')"
        "getProp msg ''action'' \<noteq> Some (JStr ''whoami'')"
    by blast
  then show ?thesis
  proof cases
    case ping
    have "snd (handleFrame P cfg c msg s) = sendJson c (Pong (clock P (tick s))) (s\<lparr>tick := Suc (tick s)\<rparr>)"
      using assms ping by (simp add: handleFrame_def nowIso_def)
    then show ?thesis
      by (intro disjI1 exI [of _ "Pong (clock P (tick s))"] exI [of _ "s\<lparr>tick := Suc (tick s)\<rparr>"]) simp
  next
    case send
    have frame: "snd (handleFrame P cfg c msg s) = handleSend P cfg c msg s"
      using assms send by (simp add: handleFrame_def)
    show ?thesis
    proof (cases "\<exists>t. getProp msg ''to'' = Some (JStr t) \<and> t \<noteq> [] \<and> clientsById cfg t \<noteq> None \<and>
        canRoute cfg a t")
      case True
      then obtain t where "getProp msg ''to'' = Some (JStr t)" "t \<noteq> []" "clientsById cfg t \<noteq> None"
        "canRoute cfg a t"
        by blast
      from handleSend_routed [OF this(1,2,3) assms(2) this(4), of P]
      obtain e s0 where e: "env_from e = a" "conns s0 = conns s" "pendingQueues s0 = pendingQueues s"
        and sent: "handleSend P cfg c msg s =
             sendJson c (Sent (env_id e) (deliveredTo (fst (deliverEnvelope cfg e s0)))
                           (queued (fst (deliverEnvelope cfg e s0))) (ts e))
               (snd (deliverEnvelope cfg e s0))"
        by blast
      show ?thesis
        by (intro disjI2 exI [of _ e] exI [of _ s0]
              exI [of _ "Sent (env_id e) (deliveredTo (fst (deliverEnvelope cfg e s0)))
                           (queued (fst (deliverEnvelope cfg e s0))) (ts e)"])
           (simp add: e frame sent)
    next
      case False
      then have "\<exists>code. handleSend P cfg c msg s = sendJson c (ErrorFrame code) s"
        using assms(2) by (auto simp: handleSend_def split: option.splits json.splits)
      then obtain code where "handleSend P cfg c msg s = sendJson c (ErrorFrame code) s"
        by blast
      with frame show ?thesis
        by (intro disjI1 exI [of _ "ErrorFrame code"] exI [of _ s]) simp
    qed
  next
    case whoami
    have frame: "handleFrame P cfg c msg s = handleWhoami P cfg c s"
      using assms whoami by (simp add: handleFrame_def)
    show ?thesis
    proof (cases "clientsById cfg a")
      case None
      with assms(2) have "snd (handleWhoami P cfg c s) = s\<lparr>fault := Some TypeError\<rparr>"
        by (simp add: handleWhoami_def)
      with frame show ?thesis
        by auto
    next
      case (Some cl)
      with assms(2) have "snd (handleWhoami P cfg c s) =
          sendJson c (WhoAmI a (canSendTo cl) (clock P (tick s))) (s\<lparr>tick := Suc (tick s)\<rparr>)"
        by (simp add: handleWhoami_def nowIso_def)
      with frame show ?thesis
        by (intro disjI1 exI [of _ "WhoAmI a (canSendTo cl) (clock P (tick s))"]
              exI [of _ "s\<lparr>tick := Suc (tick s)\<rparr>"]) simp
    qed
  next
    case other
    then have "snd (handleFrame P cfg c msg s) = sendJson c (ErrorFrame ''unknown_action'') s"
      using assms by (simp add: handleFrame_def)
    then show ?thesis
      by (intro disjI1 exI [of _ "ErrorFrame ''unknown_action''"] exI [of _ s]) simp
  qed
qed

lemma routeAdminSend_ok:
  assumes "routeAdminSend P cfg body s = (AdminOk e r, s')"
  shows "getProp body ''asClient'' = Some (JStr (env_from e)) \<and>
         (\<exists>s0. conns s0 = conns s \<and> pendingQueues s0 = pendingQueues s \<and>
               s' = snd (deliverEnvelope cfg e s0))"
proof -
  define s1 where "s1 = snd (orRandomId P ''admin'' (getProp body ''id'') s)"
  define s2 where "s2 = s1\<lparr>tick := Suc (tick s1)\<rparr>"
  have s2: "conns s2 = conns s" "pendingQueues s2 = pendingQueues s"
    by (simp_all add: s2_def s1_def orRandomId_state)
  from assms have "getProp body ''asClient'' = Some (JStr (env_from e)) \<and>
      s' = snd (deliverEnvelope cfg e s2)"
    by (auto simp: routeAdminSend_def Let_def split_beta nowIso_def s2_def s1_def
          split: if_splits option.splits json.splits)
  with s2 show ?thesis
    by blast
qed

lemma setBuffer_fields:
  "written (conns (setBuffer c b s) c') = written (conns s c')"
  "authed (conns (setBuffer c b s) c') = authed (conns s c')"
  "clientId (conns (setBuffer c b s) c') = clientId (conns s c')"
  "sock (conns (setBuffer c b s) c') = sock (conns s c')"
  "buffer (conns (setBuffer c b s) c) = b"
  "pendingQueues (setBuffer c b s) = pendingQueues s"
  "activeConnections (setBuffer c b s) = activeConnections s"
  "tick (setBuffer c b s) = tick s"
  "fault (setBuffer c b s) = fault s"
  "queueOf (setBuffer c b s) k = queueOf s k"
  by (simp_all add: setBuffer_def queueOf_def)

lemma grows_prefix:
  "grows cfg s s' \<Longrightarrow> \<exists>rest. written (conns s' c) = written (conns s c) @ rest"
  by (auto simp: grows_def prefix_def)

lemma truthy_object: "getProp msg k = Some v \<Longrightarrow> truthy (Some msg)"
  by (cases msg) simp_all

lemma handleLine_too_large:
  "length line > maxMessageBytes cfg \<Longrightarrow>
   handleLine P cfg c line s = (True, sendJson c (ErrorFrame ''message_too_large'') s)"
  by (auto simp: handleLine_def)

lemma handleLine_dispatch:
  "line \<noteq> [] \<Longrightarrow> length line \<le> maxMessageBytes cfg \<Longrightarrow> jsonParse P line = Some msg \<Longrightarrow>
   truthy (Some msg) \<Longrightarrow> handleLine P cfg c line s = handleFrame P cfg c msg s"
  by (simp add: handleLine_def)

lemma unhex_hexDigit: "n < 16 \<Longrightarrow> unhex (hexDigit n) = Some n"
proof -
  assume "n < 16"
  have "\<forall>n \<in> set [0..<16]. unhex (hexDigit n) = Some n"
    by code_simp
  with \<open>n < 16\<close> show ?thesis
    by simp
qed

lemma hexDecode_hexEncode: "\<forall>b \<in> set bs. b < 256 \<Longrightarrow> hexDecode (hexEncode bs) = bs"
proof (induction bs)
  case Nil
  show ?case by (simp add: hexEncode_def)
next
  case (Cons b bs)
  then have b: "b < 256" and rest: "\<forall>b \<in> set bs. b < 256"
    by simp_all
  from b have hi: "b div 16 < 16" and lo: "b mod 16 < 16"
    by simp_all
  have "hexEncode (b # bs) = hexDigit (b div 16) # hexDigit (b mod 16) # hexEncode bs"
    by (simp add: hexEncode_def)
  then show ?case
    using Cons.IH [OF rest] unhex_hexDigit [OF hi] unhex_hexDigit [OF lo]
    by simp
qed

lemma digestBytes_length: "length (digestBytes w) = 32"
  by (simp add: digestBytes_def)

lemma digestBytes_bytes: "\<forall>b \<in> set (digestBytes w). b < 256"
  by (simp add: digestBytes_def)

lemma actual_digest: "hexDecode (sha256 P p) = digestBytes (digest P p)"
  by (simp add: sha256_def hexDecode_hexEncode digestBytes_bytes)

lemma safeCompareHash_string:
  "safeCompareHash P (JStr p) h = Inr (digestBytes (digest P p) = hexDecode h)"
  by (auto simp: safeCompareHash_def actual_digest timingSafeEqual_def Let_def)

lemma safeCompareHash_malformed:
  "length (hexDecode h) \<noteq> 32 \<Longrightarrow> safeCompareHash P v h \<noteq> Inr True"
  by (auto simp: safeCompareHash_def actual_digest timingSafeEqual_def Let_def digestBytes_length
        split: sum.splits)

lemma handleAuth_malformed_hash:
  assumes "\<not> authed (conns s c)" and "lookupClient cfg (getProp msg ''clientId'') = Some cl"
    and "length (hexDecode (keySha256 cl)) \<noteq> 32"
  shows "\<not> authed (conns (snd (handleAuth P cfg c msg s)) c) \<and>
         activeConnections (snd (handleAuth P cfg c msg s)) = activeConnections s"
proof (cases "getProp msg ''action'' = Some (JStr ''auth'')")
  case False
  with assms(1) show ?thesis
    by (simp add: handleAuth_other sendJson_def)
next
  case auth: True
  show ?thesis
  proof (cases "safeCompareHash P (orElse (getProp msg ''apiKey'') (JStr [])) (keySha256 cl)")
    case (Inl e)
    with assms(1) show ?thesis
      by (simp add: handleAuth_thrown [OF auth assms(2)])
  next
    case (Inr ok)
    with safeCompareHash_malformed [OF assms(3), of P "orElse (getProp msg ''apiKey'') (JStr [])"]
    have "safeCompareHash P (orElse (getProp msg ''apiKey'') (JStr [])) (keySha256 cl) = Inr False"
      by simp
    with assms(1,2) auth show ?thesis
      by (simp add: handleAuth_refused sendJson_def destroy_def)
  qed
qed









lemma splitLine_shorter: "splitLine b = Some (l, r) \<Longrightarrow> length r < length b"
  by (induction b arbitrary: l r) (auto split: if_splits option.splits)

lemma processBuffer_invariant:
  assumes buf: "\<And>s b. I s \<Longrightarrow> I (setBuffer c b s)"
    and line: "\<And>s l. I s \<Longrightarrow> I (snd (handleLine P cfg c l s))"
  shows "I s \<Longrightarrow> I (processBuffer P cfg c buf s)"
proof (induction "length buf" arbitrary: buf s rule: less_induct)
  case less
  show ?case
  proof (cases "splitLine buf")
    case None
    with less.prems show ?thesis
      by (simp add: processBuffer_none)
  next
    case (Some lr)
    obtain raw rest where lr: "lr = (raw, rest)"
      by (cases lr)
    let ?h = "handleLine P cfg c (trim P raw) (setBuffer c rest s)"
    have split: "splitLine buf = Some (raw, rest)"
      using Some lr by simp
    have step: "I (snd ?h)"
      by (rule line [OF buf [OF less.prems]])
    have "I (processBuffer P cfg c rest (snd ?h))"
      by (rule less.hyps [OF splitLine_shorter [OF split] step])
    with step show ?thesis
      by (simp add: processBuffer_line [OF split])
  qed
qed

lemma run_invariant:
  assumes "\<And>s ev. I s \<Longrightarrow> I (step P cfg ev s)"
  shows "I s \<Longrightarrow> I (run P cfg evs s)"
  by (induction evs arbitrary: s) (simp_all add: assms)

lemma clientsById_id: "clientsById cfg k = Some cl \<Longrightarrow> client_id cl = k"
  by (auto simp: clientsById_def dest!: map_of_SomeD)

lemma lookupClient_registered:
  "lookupClient cfg v = Some cl \<Longrightarrow> clientsById cfg (client_id cl) = Some cl"
  by (auto simp: lookupClient_def clientsById_id split: option.splits json.splits)

lemma registered_conns:
  "(\<And>c. authed (conns s' c) = authed (conns s c) \<and> clientId (conns s' c) = clientId (conns s c))
     \<Longrightarrow> registered cfg s \<Longrightarrow> registered cfg s'"
  by (simp add: registered_def)

lemma registered_handleFrame:
  assumes "registered cfg s"
  shows "registered cfg (snd (handleFrame P cfg c msg s))"
proof (cases "authed (conns s c)")
  case True
  with assms obtain a where a: "clientId (conns s c) = Some a"
    by (auto simp: registered_def)
  from handleFrame_authed_outcome [OF True a, of P cfg msg] show ?thesis
  proof (elim disjE exE conjE)
    fix f s0
    assume "conns s0 = conns s" "snd (handleFrame P cfg c msg s) = sendJson c f s0"
    then show ?thesis
      by (intro registered_conns [OF _ assms]) (simp add: sendJson_def)
  next
    fix x
    assume "snd (handleFrame P cfg c msg s) = s\<lparr>fault := x\<rparr>"
    then show ?thesis
      by (intro registered_conns [OF _ assms]) simp
  next
    fix f e s0
    assume "conns s0 = conns s"
      "snd (handleFrame P cfg c msg s) = sendJson c f (snd (deliverEnvelope cfg e s0))"
    then show ?thesis
      by (intro registered_conns [OF _ assms]) (simp add: sendJson_def deliverEnvelope_conns)
  qed
next
  case False
  then have frame: "handleFrame P cfg c msg s = handleAuth P cfg c msg s"
    by (simp add: handleFrame_def)
  show ?thesis
  proof (cases "getProp msg ''action'' = Some (JStr ''auth'')")
    case False
    then show ?thesis
      unfolding frame
      by (intro registered_conns [OF _ assms]) (simp add: handleAuth_other sendJson_def)
  next
    case auth: True
    show ?thesis
    proof (cases "lookupClient cfg (getProp msg ''clientId'')")
      case None
      with auth show ?thesis
        unfolding frame
        by (intro registered_conns [OF _ assms])
           (simp add: handleAuth_refused sendJson_def destroy_def)
    next
      case (Some cl)
      show ?thesis
      proof (cases "safeCompareHash P (orElse (getProp msg ''apiKey'') (JStr [])) (keySha256 cl)")
        case (Inl e)
        with auth Some show ?thesis
          unfolding frame
          by (intro registered_conns [OF _ assms]) (simp add: handleAuth_thrown)
      next
        case (Inr ok)
        show ?thesis
        proof (cases ok)
          case False
          with auth Some Inr show ?thesis
            unfolding frame
            by (intro registered_conns [OF _ assms])
               (simp add: handleAuth_refused sendJson_def destroy_def)
        next
          case True
          with auth Some Inr assms lookupClient_registered [OF Some] show ?thesis
            unfolding frame
            by (simp add: registered_def handleAuth_success)
        qed
      qed
    qed
  qed
qed

lemma registered_step:
  assumes "registered cfg s"
  shows "registered cfg (step P cfg ev s)"
proof (cases ev)
  case (Connect c)
  with assms show ?thesis
    by (auto simp: registered_def)
next
  case (Data c chunk)
  have err: "registered cfg (sendJson c f s)" if "registered cfg s" for s f
    by (rule registered_conns [OF _ that]) (simp add: sendJson_def)
  have line: "registered cfg (snd (handleLine P cfg c l s))" if "registered cfg s" for s l
    using that by (simp add: handleLine_def registered_handleFrame err split: option.splits)
  have buf: "registered cfg (setBuffer c b s)" if "registered cfg s" for s b
    by (rule registered_conns [OF _ that]) (simp add: setBuffer_def)
  have over: "registered cfg (destroy c (sendJson c f (setBuffer c b s)))" for f b
    by (rule registered_conns [OF _ assms]) (simp add: setBuffer_def sendJson_def destroy_def)
  from Data assms over show ?thesis
    by (simp add: onData_def Let_def processBuffer_invariant [where I = "registered cfg", OF buf line] buf)
next
  case (Close c)
  have "registered cfg (onClose c s)"
    by (rule registered_conns [OF _ assms])
       (simp add: onClose_def Let_def unregisterConnection_other split: option.splits)
  with Close assms show ?thesis
    by simp
next
  case (AdminSend body)
  have "registered cfg (snd (routeAdminSend P cfg body s))"
  proof (cases "\<exists>e r. fst (routeAdminSend P cfg body s) = AdminOk e r")
    case True
    then obtain e r where "routeAdminSend P cfg body s = (AdminOk e r, snd (routeAdminSend P cfg body s))"
      by (auto simp: prod_eq_iff)
    from routeAdminSend_ok [OF this] show ?thesis
      by (elim conjE exE, intro registered_conns [OF _ assms]) (simp add: deliverEnvelope_conns)
  next
    case False
    then have "snd (routeAdminSend P cfg body s) = s"
      by (auto simp: routeAdminSend_def Let_def split_beta split: option.splits json.splits if_splits)
    with assms show ?thesis
      by simp
  qed
  with AdminSend show ?thesis
    by simp
qed

lemma registered_reachable: "registered cfg (run P cfg evs init)"
proof -
  have start: "registered cfg init"
    by (simp add: registered_def init_def freshConn_def)
  have "registered cfg (step P cfg ev s)" if "registered cfg s" for s ev
    using that by (rule registered_step)
  with start show ?thesis
    using run_invariant [where I = "registered cfg" and P = P and cfg = cfg and s = init]
    by blast
qed

section \<open>The router\<close>

text \<open>
  Claim C1.  For every envelope given to \<open>deliverEnvelope\<close>: if the recipient has at
  least one registered connection, the envelope is written as a \<open>Message\<close> frame to each
  of these connections (and to no other, and no queue changes) and the result is
  \<open>deliveredTo\<close> = the number of these connections, \<open>queued = False\<close>; otherwise the
  envelope is pushed on the recipient's queue (the oldest entry leaving when the limit is
  exceeded), nothing is written, and the result is \<open>deliveredTo = 0\<close>, \<open>queued = True\<close>.
  The result \<open>deliveredTo = 0\<close> with \<open>queued = False\<close> never occurs.
\<close>

theorem deliverEnvelope_delivers_or_queues:
  "(recipientsOf s (env_to e) \<noteq> {||} \<longrightarrow>
      fst (deliverEnvelope cfg e s) =
        \<lparr>deliveredTo = fcard (recipientsOf s (env_to e)), queued = False\<rparr>
    \<and> (\<forall>c. c |\<in>| recipientsOf s (env_to e) \<longrightarrow>
          written (conns (snd (deliverEnvelope cfg e s)) c) = written (conns s c) @ [Message e])
    \<and> (\<forall>c. c |\<notin>| recipientsOf s (env_to e) \<longrightarrow>
          conns (snd (deliverEnvelope cfg e s)) c = conns s c)
    \<and> pendingQueues (snd (deliverEnvelope cfg e s)) = pendingQueues s)
 \<and> (recipientsOf s (env_to e) = {||} \<longrightarrow>
      fst (deliverEnvelope cfg e s) = \<lparr>deliveredTo = 0, queued = True\<rparr>
    \<and> queueOf (snd (deliverEnvelope cfg e s)) (env_to e) =
        (if length (queueOf s (env_to e) @ [e]) > queueLimit cfg
         then tl (queueOf s (env_to e) @ [e]) else queueOf s (env_to e) @ [e])
    \<and> conns (snd (deliverEnvelope cfg e s)) = conns s)
 \<and> \<not> (deliveredTo (fst (deliverEnvelope cfg e s)) = 0
        \<and> \<not> queued (fst (deliverEnvelope cfg e s)))"
proof (cases "recipientsOf s (env_to e) = {||}")
  case True
  then have "offline s (env_to e)"
    by (simp add: offline_iff)
  with True show ?thesis
    by (simp add: deliverEnvelope_def Let_def split_beta getQueue_fst getQueue_snd_conns queueOf_def)
next
  case False
  then have "\<not> offline s (env_to e)" and "fcard (recipientsOf s (env_to e)) \<noteq> 0"
    by (simp_all add: offline_iff fcard_0_eq)
  with False show ?thesis
    by (simp add: deliverEnvelope_def Let_def sendAll_def)
qed

theorem deliverEnvelope_delivers_or_queues_witness:
  "recipientsOf twoListeners (env_to (demoEnvelope ''1'')) \<noteq> {||} \<and>
   fst (deliverEnvelope demoConfig (demoEnvelope ''1'') twoListeners) =
     \<lparr>deliveredTo = 2, queued = False\<rparr> \<and>
   recipientsOf init (env_to (demoEnvelope ''1'')) = {||} \<and>
   fst (deliverEnvelope demoConfig (demoEnvelope ''1'') init) =
     \<lparr>deliveredTo = 0, queued = True\<rparr>"
proof -
  have live: "recipientsOf twoListeners (env_to (demoEnvelope ''1'')) \<noteq> {||}"
    by code_simp
  have two: "fcard (recipientsOf twoListeners (env_to (demoEnvelope ''1''))) = 2"
    by code_simp
  have off: "recipientsOf init (env_to (demoEnvelope ''1'')) = {||}"
    by code_simp
  have a: "fst (deliverEnvelope demoConfig (demoEnvelope ''1'') twoListeners) =
     \<lparr>deliveredTo = 2, queued = False\<rparr>"
    using deliverEnvelope_delivers_or_queues [of twoListeners "demoEnvelope ''1''" demoConfig]
      live two by simp
  have b: "fst (deliverEnvelope demoConfig (demoEnvelope ''1'') init) =
     \<lparr>deliveredTo = 0, queued = True\<rparr>"
    using deliverEnvelope_delivers_or_queues [of init "demoEnvelope ''1''" demoConfig] off
    by simp
  from live off a b show ?thesis
    by simp
qed

section \<open>The queue store\<close>

text \<open>
  Claim C2.  Whatever events the daemon has handled since its start, the queue of every
  recipient holds at most \<open>queueLimit\<close> envelopes.  When envelopes \<open>es\<close> are routed one
  after the other to a recipient that has no connection and an empty queue, the queue
  ends up holding the last \<open>queueLimit\<close> of them in the order they were sent (the oldest
  ones were dropped), and \<open>flushQueue\<close> writes exactly these, in that order, to the
  connection that drains the queue.  With a limit of 3 and 5 envelopes these are the
  last 3.  A single envelope routed to a recipient without connection whose queue is
  full (and not empty) removes the oldest entry and becomes the newest.
\<close>

theorem queue_bounded_drop_oldest:
  "length (queueOf (run P cfg evs init) k) \<le> queueLimit cfg \<and>
   ((\<forall>e \<in> set es. env_to e = k) \<and> recipientsOf s k = {||} \<and> queueOf s k = [] \<longrightarrow>
      queueOf (foldl (\<lambda>s e. snd (deliverEnvelope cfg e s)) s es) k =
        drop (length es - queueLimit cfg) es \<and>
      written (conns (snd (flushQueue k c (foldl (\<lambda>s e. snd (deliverEnvelope cfg e s)) s es))) c) =
        written (conns s c) @ map Message (drop (length es - queueLimit cfg) es)) \<and>
   (recipientsOf s (env_to e) = {||} \<and> length (queueOf s (env_to e)) = queueLimit cfg \<and>
    queueOf s (env_to e) \<noteq> [] \<longrightarrow>
      queueOf (snd (deliverEnvelope cfg e s)) (env_to e) = tl (queueOf s (env_to e)) @ [e])"
proof -
  have full: "queueOf (snd (deliverEnvelope cfg e s)) (env_to e) = tl (queueOf s (env_to e)) @ [e]"
    if "recipientsOf s (env_to e) = {||}" "length (queueOf s (env_to e)) = queueLimit cfg"
      "queueOf s (env_to e) \<noteq> []"
    using that by (simp add: deliverEnvelope_queueOf)
  have "length (queueOf (run P cfg evs init) k) \<le> max (length (queueOf init k)) (queueLimit cfg)"
    using grows_run [of cfg init P evs] by (simp add: grows_def)
  then have bounded: "length (queueOf (run P cfg evs init) k) \<le> queueLimit cfg"
    by (simp add: queueOf_def init_def)
  have drained: "queueOf (foldl (\<lambda>s e. snd (deliverEnvelope cfg e s)) s es) k =
        drop (length es - queueLimit cfg) es \<and>
      written (conns (snd (flushQueue k c (foldl (\<lambda>s e. snd (deliverEnvelope cfg e s)) s es))) c) =
        written (conns s c) @ map Message (drop (length es - queueLimit cfg) es)"
    if to: "\<forall>e \<in> set es. env_to e = k" and off: "recipientsOf s k = {||}" and empty: "queueOf s k = []"
  proof -
    have q: "queueOf (foldl (\<lambda>s e. snd (deliverEnvelope cfg e s)) s es) k =
        drop (length es - queueLimit cfg) es"
      using deliverSeq_queue [OF to off, of cfg] empty by simp
    then show ?thesis
      by (simp add: flushQueue_conns conjunct2 [OF deliverSeq_offline [OF to off]])
  qed
  from bounded drained full show ?thesis
    by blast
qed

theorem queue_bounded_drop_oldest_witness:
  "map env_to (map demoEnvelope [''1'', ''2'', ''3'', ''4'', ''5'']) =
     [''bob'', ''bob'', ''bob'', ''bob'', ''bob''] \<and>
   recipientsOf init ''bob'' = {||} \<and> queueOf init ''bob'' = [] \<and>
   queueLimit demoConfig = 3 \<and>
   written (conns (snd (flushQueue ''bob'' 7
      (foldl (\<lambda>s e. snd (deliverEnvelope demoConfig e s)) init
         (map demoEnvelope [''1'', ''2'', ''3'', ''4'', ''5''])))) 7) =
     [Message (demoEnvelope ''3''), Message (demoEnvelope ''4''), Message (demoEnvelope ''5'')] \<and>
   recipientsOf bobQueued ''bob'' = {||} \<and>
   map payload (queueOf bobQueued ''bob'') = [JNum ''1'', JNum ''2'', JNum ''3''] \<and>
   map payload (queueOf (snd (deliverEnvelope demoConfig (demoEnvelope ''4'') bobQueued)) ''bob'') =
     [JNum ''2'', JNum ''3'', JNum ''4'']"
proof -
  let ?es = "map demoEnvelope [''1'', ''2'', ''3'', ''4'', ''5'']"
  have to: "\<forall>e \<in> set ?es. env_to e = ''bob''"
    by code_simp
  have off: "recipientsOf init ''bob'' = {||}"
    by code_simp
  have empty: "queueOf init ''bob'' = []"
    by code_simp
  have limit: "queueLimit demoConfig = 3"
    by code_simp
  have before: "written (conns init 7) = []"
    by code_simp
  have "written (conns (snd (flushQueue ''bob'' 7
      (foldl (\<lambda>s e. snd (deliverEnvelope demoConfig e s)) init ?es))) 7) =
     written (conns init 7) @ map Message (drop (length ?es - queueLimit demoConfig) ?es)"
    using queue_bounded_drop_oldest [of toyPlatform demoConfig "[]" "''bob''" ?es init 7]
      to off empty by blast
  then have last3: "written (conns (snd (flushQueue ''bob'' 7
      (foldl (\<lambda>s e. snd (deliverEnvelope demoConfig e s)) init ?es))) 7) =
     [Message (demoEnvelope ''3''), Message (demoEnvelope ''4''), Message (demoEnvelope ''5'')]"
    by (simp add: before limit)
  have tos: "map env_to ?es = [''bob'', ''bob'', ''bob'', ''bob'', ''bob'']"
    by code_simp
  have to4: "env_to (demoEnvelope ''4'') = ''bob''"
    by code_simp
  have off3: "recipientsOf bobQueued ''bob'' = {||}"
    by code_simp
  have q3: "map payload (queueOf bobQueued ''bob'') = [JNum ''1'', JNum ''2'', JNum ''3'']"
    by code_simp
  have full: "recipientsOf bobQueued (env_to (demoEnvelope ''4'')) = {||} \<and>
      length (queueOf bobQueued (env_to (demoEnvelope ''4''))) = queueLimit demoConfig \<and>
      queueOf bobQueued (env_to (demoEnvelope ''4'')) \<noteq> []"
    by code_simp
  have "queueOf (snd (deliverEnvelope demoConfig (demoEnvelope ''4'') bobQueued))
          (env_to (demoEnvelope ''4'')) =
        tl (queueOf bobQueued (env_to (demoEnvelope ''4''))) @ [demoEnvelope ''4'']"
    by (rule mp [OF conjunct2 [OF conjunct2 [OF queue_bounded_drop_oldest
          [where cfg = demoConfig and s = bobQueued and e = "demoEnvelope ''4''"]]] full])
  then have "map payload (queueOf (snd (deliverEnvelope demoConfig (demoEnvelope ''4'') bobQueued))
          ''bob'') =
        tl (map payload (queueOf bobQueued ''bob'')) @ [payload (demoEnvelope ''4'')]"
    by (simp add: to4 map_tl)
  then have shifted: "map payload (queueOf (snd (deliverEnvelope demoConfig (demoEnvelope ''4'')
      bobQueued)) ''bob'') = [JNum ''2'', JNum ''3'', JNum ''4'']"
    by (simp add: q3 demoEnvelope_def)
  from tos off empty limit last3 off3 q3 shifted show ?thesis
    by blast
qed

section \<open>Validation of \<open>send\<close> frames\<close>

text \<open>
  Claim C3.  Every authenticated connection of every state that the daemon reaches is
  bound to a client \<open>cl\<close> of the registry (lemma \<open>registered_reachable\<close>).  A \<open>send\<close>
  frame on such a connection is routed if and only if \<open>to\<close> is a non-empty string, \<open>to\<close> is a
  registered client, and the allowlist of the sender holds \<open>to\<close> or the wildcard.
  Otherwise the state changes by exactly one error frame written to the sender, with
  code \<open>missing_to\<close>, \<open>unknown_target\<close> or \<open>route_not_allowed\<close> in this order of the
  checks: no queue and no other socket changes.  When it is routed, an envelope from the
  sender to \<open>to\<close> is handed to \<open>deliverEnvelope\<close> and acknowledged with a \<open>Sent\<close>
  frame; with the wildcard in the allowlist this holds for every registered \<open>to\<close>, the
  sender itself included.
\<close>


theorem send_validation:
  assumes "authed (conns s c)" and "clientId (conns s c) = Some a"
    and "clientsById cfg a = Some cl" and "getProp msg ''action'' = Some (JStr ''send'')"
  shows
   "((\<nexists>t. getProp msg ''to'' = Some (JStr t) \<and> t \<noteq> []) \<longrightarrow>
       handleFrame P cfg c msg s = (True, sendJson c (ErrorFrame ''missing_to'') s)) \<and>
    (getProp msg ''to'' = Some (JStr t) \<and> t \<noteq> [] \<and> clientsById cfg t = None \<longrightarrow>
       handleFrame P cfg c msg s = (True, sendJson c (ErrorFrame ''unknown_target'') s)) \<and>
    (getProp msg ''to'' = Some (JStr t) \<and> t \<noteq> [] \<and> clientsById cfg t \<noteq> None \<and>
     ''*'' \<notin> set (canSendTo cl) \<and> t \<notin> set (canSendTo cl) \<longrightarrow>
       handleFrame P cfg c msg s = (True, sendJson c (ErrorFrame ''route_not_allowed'') s)) \<and>
    (getProp msg ''to'' = Some (JStr t) \<and> t \<noteq> [] \<and> clientsById cfg t \<noteq> None \<and>
     (''*'' \<in> set (canSendTo cl) \<or> t \<in> set (canSendTo cl)) \<longrightarrow>
       (\<exists>e s0. env_from e = a \<and> env_to e = t \<and>
           conns s0 = conns s \<and> pendingQueues s0 = pendingQueues s \<and>
           activeConnections s0 = activeConnections s \<and> fault s0 = fault s \<and>
           handleFrame P cfg c msg s =
             (True, sendJson c (Sent (env_id e) (deliveredTo (fst (deliverEnvelope cfg e s0)))
                           (queued (fst (deliverEnvelope cfg e s0))) (ts e))
               (snd (deliverEnvelope cfg e s0))))) \<and>
    ((\<exists>i d q z. last (written (conns (snd (handleFrame P cfg c msg s)) c)) = Sent i d q z) \<longleftrightarrow>
       (\<exists>t. getProp msg ''to'' = Some (JStr t) \<and> t \<noteq> [] \<and> clientsById cfg t \<noteq> None \<and>
            (''*'' \<in> set (canSendTo cl) \<or> t \<in> set (canSendTo cl))))"
proof -
  have frame: "handleFrame P cfg c msg s = (True, handleSend P cfg c msg s)"
    using assms by (simp add: handleFrame_def)
  have missing: "handleSend P cfg c msg s = sendJson c (ErrorFrame ''missing_to'') s"
    if "\<nexists>t. getProp msg ''to'' = Some (JStr t) \<and> t \<noteq> []"
    using that by (auto simp: handleSend_def split: option.splits json.splits)
  have unknown: "handleSend P cfg c msg s = sendJson c (ErrorFrame ''unknown_target'') s"
    if "getProp msg ''to'' = Some (JStr t)" "t \<noteq> []" "clientsById cfg t = None" for t
    using that by (simp add: handleSend_def)
  have denied: "handleSend P cfg c msg s = sendJson c (ErrorFrame ''route_not_allowed'') s"
    if "getProp msg ''to'' = Some (JStr t)" "t \<noteq> []" "clientsById cfg t \<noteq> None"
      "''*'' \<notin> set (canSendTo cl)" "t \<notin> set (canSendTo cl)" for t
    using that assms(2,3) by (auto simp: handleSend_def canRoute_iff)
  have routed: "\<exists>e s0. env_from e = a \<and> env_to e = t \<and>
           conns s0 = conns s \<and> pendingQueues s0 = pendingQueues s \<and>
           activeConnections s0 = activeConnections s \<and> fault s0 = fault s \<and>
           handleSend P cfg c msg s =
             sendJson c (Sent (env_id e) (deliveredTo (fst (deliverEnvelope cfg e s0)))
                           (queued (fst (deliverEnvelope cfg e s0))) (ts e))
               (snd (deliverEnvelope cfg e s0))"
    if "getProp msg ''to'' = Some (JStr t)" "t \<noteq> []" "clientsById cfg t \<noteq> None"
      "''*'' \<in> set (canSendTo cl) \<or> t \<in> set (canSendTo cl)" for t
    using handleSend_routed [OF that(1,2,3) assms(2), of P] that(4) assms(3)
    by (simp add: canRoute_iff)
  have lastErr: "last (written (conns (sendJson c f s) c)) = f" for f s
    by (simp add: sendJson_def)
  have acked: "(\<exists>i d q z. last (written (conns (handleSend P cfg c msg s) c)) = Sent i d q z) \<longleftrightarrow>
       (\<exists>t. getProp msg ''to'' = Some (JStr t) \<and> t \<noteq> [] \<and> clientsById cfg t \<noteq> None \<and>
            (''*'' \<in> set (canSendTo cl) \<or> t \<in> set (canSendTo cl)))" (is "?L \<longleftrightarrow> ?R")
  proof
    assume ?R
    then obtain t where "getProp msg ''to'' = Some (JStr t)" "t \<noteq> []" "clientsById cfg t \<noteq> None"
      "''*'' \<in> set (canSendTo cl) \<or> t \<in> set (canSendTo cl)"
      by blast
    from routed [OF this] show ?L
      by (auto simp: lastErr)
  next
    assume L: ?L
    show ?R
    proof (rule ccontr)
      assume not: "\<not> ?R"
      consider "\<nexists>t. getProp msg ''to'' = Some (JStr t) \<and> t \<noteq> []"
        | t where "getProp msg ''to'' = Some (JStr t)" "t \<noteq> []" "clientsById cfg t = None"
        | t where "getProp msg ''to'' = Some (JStr t)" "t \<noteq> []" "clientsById cfg t \<noteq> None"
            "''*'' \<notin> set (canSendTo cl)" "t \<notin> set (canSendTo cl)"
        using not by blast
      then show False
      proof cases
        case 1
        from L missing [OF 1] show False by (simp add: lastErr)
      next
        case 2
        from L unknown [OF 2] show False by (simp add: lastErr)
      next
        case 3
        from L denied [OF 3] show False by (simp add: lastErr)
      qed
    qed
  qed
  show ?thesis
    unfolding frame using missing unknown denied routed acked
    by (simp del: not_ex)
qed

theorem send_validation_witness:
  "authed (conns aliceOnline 1) \<and> clientId (conns aliceOnline 1) = Some ''alice'' \<and>
   clientsById demoConfig ''alice'' = Some aliceClient \<and>
   handleFrame toyPlatform demoConfig 1 sendNoTarget aliceOnline =
     (True, sendJson 1 (ErrorFrame ''missing_to'') aliceOnline) \<and>
   handleFrame toyPlatform demoConfig 1 sendToDave aliceOnline =
     (True, sendJson 1 (ErrorFrame ''unknown_target'') aliceOnline) \<and>
   handleFrame toyPlatform demoConfig 1 sendToCarol aliceOnline =
     (True, sendJson 1 (ErrorFrame ''route_not_allowed'') aliceOnline) \<and>
   (\<exists>i d q z. last (written (conns (snd (handleFrame toyPlatform demoConfig 1 forgedSend
        aliceOnline)) 1)) = Sent i d q z)"
proof -
  have h1: "authed (conns aliceOnline 1)"
    by code_simp
  have h2: "clientId (conns aliceOnline 1) = Some ''alice''"
    by code_simp
  have h3: "clientsById demoConfig ''alice'' = Some aliceClient"
    by code_simp
  have send: "getProp sendNoTarget ''action'' = Some (JStr ''send'')"
    "getProp sendToDave ''action'' = Some (JStr ''send'')"
    "getProp sendToCarol ''action'' = Some (JStr ''send'')"
    "getProp forgedSend ''action'' = Some (JStr ''send'')"
    by code_simp+
  have "getProp sendNoTarget ''to'' = Some (JNum ''7'')"
    by code_simp
  then have none: "\<nexists>t. getProp sendNoTarget ''to'' = Some (JStr t) \<and> t \<noteq> []"
    by simp
  have missing: "handleFrame toyPlatform demoConfig 1 sendNoTarget aliceOnline =
     (True, sendJson 1 (ErrorFrame ''missing_to'') aliceOnline)"
    by (rule mp [OF conjunct1 [OF send_validation [OF h1 h2 h3 send(1)]] none])
  have dave: "getProp sendToDave ''to'' = Some (JStr ''dave'') \<and> ''dave'' \<noteq> [] \<and>
      clientsById demoConfig ''dave'' = None"
    by code_simp
  have unknown: "handleFrame toyPlatform demoConfig 1 sendToDave aliceOnline =
     (True, sendJson 1 (ErrorFrame ''unknown_target'') aliceOnline)"
    by (rule mp [OF conjunct1 [OF conjunct2
          [OF send_validation [OF h1 h2 h3 send(2), where t = "''dave''" and P = toyPlatform]]] dave])
  have carol: "getProp sendToCarol ''to'' = Some (JStr ''carol'') \<and> ''carol'' \<noteq> [] \<and>
      clientsById demoConfig ''carol'' \<noteq> None \<and>
      ''*'' \<notin> set (canSendTo aliceClient) \<and> ''carol'' \<notin> set (canSendTo aliceClient)"
    by code_simp
  have denied: "handleFrame toyPlatform demoConfig 1 sendToCarol aliceOnline =
     (True, sendJson 1 (ErrorFrame ''route_not_allowed'') aliceOnline)"
    by (rule mp [OF conjunct1 [OF conjunct2 [OF conjunct2
          [OF send_validation [OF h1 h2 h3 send(3), where t = "''carol''" and P = toyPlatform]]]] carol])
  have bob: "getProp forgedSend ''to'' = Some (JStr ''bob'') \<and> ''bob'' \<noteq> [] \<and>
      clientsById demoConfig ''bob'' \<noteq> None \<and>
      (''*'' \<in> set (canSendTo aliceClient) \<or> ''bob'' \<in> set (canSendTo aliceClient))"
    by code_simp
  then have "\<exists>t. getProp forgedSend ''to'' = Some (JStr t) \<and> t \<noteq> [] \<and>
      clientsById demoConfig t \<noteq> None \<and>
      (''*'' \<in> set (canSendTo aliceClient) \<or> t \<in> set (canSendTo aliceClient))"
    by blast
  with conjunct2 [OF conjunct2 [OF conjunct2 [OF conjunct2
        [OF send_validation [OF h1 h2 h3 send(4), where P = toyPlatform]]]]]
  have routed: "\<exists>i d q z. last (written (conns (snd (handleFrame toyPlatform demoConfig 1 forgedSend
        aliceOnline)) 1)) = Sent i d q z"
    by blast
  from h1 h2 h3 missing unknown denied routed show ?thesis
    by blast
qed

section \<open>The sender of an envelope\<close>

text \<open>
  Claim C4.  Whatever frame \<open>msg\<close> an authenticated connection sends, every \<open>Message\<close>
  frame that the daemon writes in response, and every envelope that it adds to a queue,
  carries as \<open>from\<close> the client id bound to that connection: no field of \<open>msg\<close> has a
  part in it.  An envelope that \<open>routeAdminSend\<close> routes carries as \<open>from\<close> the
  \<open>asClient\<close> value of the request, and it is the only envelope written or queued.
\<close>


theorem envelope_from_is_authenticated_sender:
  "(authed (conns s c) \<and> clientId (conns s c) = Some a \<longrightarrow>
      (\<forall>c' e. Message e \<in> set (newFrames s (snd (handleFrame P cfg c msg s)) c') \<longrightarrow>
         env_from e = a) \<and>
      (\<forall>k e. e \<in> set (queueOf (snd (handleFrame P cfg c msg s)) k) \<longrightarrow>
         e \<in> set (queueOf s k) \<or> env_from e = a)) \<and>
   (routeAdminSend P cfg body s = (AdminOk e r, s') \<longrightarrow>
      getProp body ''asClient'' = Some (JStr (env_from e)) \<and>
      (\<forall>c' e'. Message e' \<in> set (newFrames s s' c') \<longrightarrow> e' = e) \<and>
      (\<forall>k e'. e' \<in> set (queueOf s' k) \<longrightarrow> e' \<in> set (queueOf s k) \<or> e' = e))"
proof (intro conjI impI)
  assume "authed (conns s c) \<and> clientId (conns s c) = Some a"
  then have au: "authed (conns s c)" and cl: "clientId (conns s c) = Some a"
    by simp_all
  let ?s' = "snd (handleFrame P cfg c msg s)"
  have "(\<forall>c' e. Message e \<in> set (newFrames s ?s' c') \<longrightarrow> env_from e = a) \<and>
        (\<forall>k e. e \<in> set (queueOf ?s' k) \<longrightarrow> e \<in> set (queueOf s k) \<or> env_from e = a)"
    using handleFrame_authed_outcome [OF au cl, of P cfg msg]
  proof (elim disjE exE conjE)
    fix f s0
    assume "\<forall>e. f \<noteq> Message e" "conns s0 = conns s" "pendingQueues s0 = pendingQueues s"
      "?s' = sendJson c f s0"
    then show ?thesis
      by (auto simp: newFrames_def sendJson_def queueOf_def)
  next
    fix x
    assume "?s' = s\<lparr>fault := x\<rparr>"
    then show ?thesis
      by (simp add: newFrames_def queueOf_def)
  next
    fix f e s0
    assume f: "\<forall>e. f \<noteq> Message e" and e: "env_from e = a"
      and s0: "conns s0 = conns s" "pendingQueues s0 = pendingQueues s"
      and eq: "?s' = sendJson c f (snd (deliverEnvelope cfg e s0))"
    have "env_from e' = a" if "Message e' \<in> set (newFrames s ?s' c')" for c' e'
      using that f e unfolding eq newFrames_def routed_frames [OF s0(1)]
      by (auto split: if_splits)
    moreover have "e' \<in> set (queueOf s k) \<or> env_from e' = a" if "e' \<in> set (queueOf ?s' k)" for k e'
      using routed_queue [OF s0(2), of e' c f cfg e k] that e unfolding eq
      by auto
    ultimately show ?thesis
      by blast
  qed
  then show "\<forall>c' e. Message e \<in> set (newFrames s ?s' c') \<longrightarrow> env_from e = a"
    and "\<forall>k e. e \<in> set (queueOf ?s' k) \<longrightarrow> e \<in> set (queueOf s k) \<or> env_from e = a"
    by simp_all
next
  assume ok: "routeAdminSend P cfg body s = (AdminOk e r, s')"
  from routeAdminSend_ok [OF ok] obtain s0 where
    sender: "getProp body ''asClient'' = Some (JStr (env_from e))"
    and s0: "conns s0 = conns s" "pendingQueues s0 = pendingQueues s"
    and eq: "s' = snd (deliverEnvelope cfg e s0)"
    by blast
  show "getProp body ''asClient'' = Some (JStr (env_from e))"
    by (rule sender)
  show "\<forall>c' e'. Message e' \<in> set (newFrames s s' c') \<longrightarrow> e' = e"
    unfolding eq newFrames_def using s0(1)
    by (auto simp: deliverEnvelope_conns split: if_splits)
  have same: "queueOf s0 k = queueOf s k" for k
    using s0(2) by (simp add: queueOf_def)
  show "\<forall>k e'. e' \<in> set (queueOf s' k) \<longrightarrow> e' \<in> set (queueOf s k) \<or> e' = e"
    unfolding eq
    by (auto simp: deliverEnvelope_queueOf same split: if_splits dest: list.set_sel(2) [rotated])
qed

theorem envelope_from_is_authenticated_sender_witness:
  "authed (conns aliceOnline 1) \<and> clientId (conns aliceOnline 1) = Some ''alice'' \<and>
   getProp forgedSend ''from'' = Some (JStr ''mallory'') \<and>
   queueOf (snd (handleFrame toyPlatform demoConfig 1 forgedSend aliceOnline)) ''bob'' \<noteq> [] \<and>
   list_all (\<lambda>e. env_from e = ''alice'')
     (queueOf (snd (handleFrame toyPlatform demoConfig 1 forgedSend aliceOnline)) ''bob'') \<and>
   fst (routeAdminSend toyPlatform demoConfig adminBody aliceOnline) =
     AdminOk \<lparr>env_id = JStr ''admin_a'', env_from = ''bob'', env_to = ''alice'',
               env_type = JStr ''response'', payload = JNull, correlationId = JNull,
               ts = ''tt''\<rparr>
             \<lparr>deliveredTo = 1, queued = False\<rparr> \<and>
   getProp adminBody ''asClient'' = Some (JStr ''bob'')"
proof -
  have h: "authed (conns aliceOnline 1) \<and> clientId (conns aliceOnline 1) = Some ''alice''"
    by code_simp
  have forged: "getProp forgedSend ''from'' = Some (JStr ''mallory'')"
    by code_simp
  have queued: "queueOf (snd (handleFrame toyPlatform demoConfig 1 forgedSend aliceOnline)) ''bob'' \<noteq> []"
    by code_simp
  have before: "queueOf aliceOnline ''bob'' = []"
    by code_simp
  have all: "\<forall>k e. e \<in> set (queueOf (snd (handleFrame toyPlatform demoConfig 1 forgedSend aliceOnline)) k) \<longrightarrow>
      e \<in> set (queueOf aliceOnline k) \<or> env_from e = ''alice''"
    using mp [OF conjunct1 [OF envelope_from_is_authenticated_sender
          [where s = aliceOnline and c = 1 and a = "''alice''" and P = toyPlatform
             and cfg = demoConfig and msg = forgedSend]] h]
    by (rule conjunct2)
  have "env_from e = ''alice''"
    if "e \<in> set (queueOf (snd (handleFrame toyPlatform demoConfig 1 forgedSend aliceOnline)) ''bob'')"
    for e
  proof -
    from all that have "e \<in> set (queueOf aliceOnline ''bob'') \<or> env_from e = ''alice''"
      by blast
    with before show ?thesis
      by simp
  qed
  then have frm: "list_all (\<lambda>e. env_from e = ''alice'')
     (queueOf (snd (handleFrame toyPlatform demoConfig 1 forgedSend aliceOnline)) ''bob'')"
    by (simp add: list_all_iff)
  let ?e = "\<lparr>env_id = JStr ''admin_a'', env_from = ''bob'', env_to = ''alice'',
               env_type = JStr ''response'', payload = JNull, correlationId = JNull,
               ts = ''tt''\<rparr>"
  let ?r = "\<lparr>deliveredTo = 1, queued = False\<rparr>"
  have admin: "fst (routeAdminSend toyPlatform demoConfig adminBody aliceOnline) = AdminOk ?e ?r"
    by code_simp
  then have "routeAdminSend toyPlatform demoConfig adminBody aliceOnline =
      (AdminOk ?e ?r, snd (routeAdminSend toyPlatform demoConfig adminBody aliceOnline))"
    by (simp add: prod_eq_iff)
  from mp [OF conjunct2 [OF envelope_from_is_authenticated_sender] this]
  have "getProp adminBody ''asClient'' = Some (JStr (env_from ?e))"
    by (rule conjunct1)
  then have asClient: "getProp adminBody ''asClient'' = Some (JStr ''bob'')"
    by simp
  from h forged queued frm admin asClient show ?thesis
    by blast
qed

section \<open>Authorization of the HTTP API\<close>




section \<open>Draining on authentication\<close>

text \<open>
  Claim C6.  When the first complete line of the buffer of an open, unauthenticated
  connection \<open>c\<close> is a valid \<open>auth\<close> frame for the client \<open>cl\<close>, then whatever follows
  it (the rest of the chunk and every later event), the frames written to \<open>c\<close> continue
  with \<open>AuthOk\<close> and then with the envelopes that were in the queue of \<open>cl\<close> at that
  moment, oldest first; everything else written to \<open>c\<close>, and so every envelope routed
  to \<open>cl\<close> afterwards, comes after them.
\<close>


theorem drained_before_later_deliveries:
  assumes "fault s = None" and "sock (conns s c) = Open" and "\<not> authed (conns s c)"
    and "splitLine (buffer (conns s c) @ chunk) = Some (raw, later)"
    and "length (buffer (conns s c) @ chunk) \<le> maxMessageBytes cfg * 2"
    and "trim P raw \<noteq> []" and "length (trim P raw) \<le> maxMessageBytes cfg"
    and "jsonParse P (trim P raw) = Some msg"
    and "getProp msg ''action'' = Some (JStr ''auth'')"
    and "lookupClient cfg (getProp msg ''clientId'') = Some cl"
    and "safeCompareHash P (orElse (getProp msg ''apiKey'') (JStr [])) (keySha256 cl) = Inr True"
  shows "\<exists>rest. written (conns (run P cfg (Data c chunk # evs) s) c) =
           written (conns s c) @
           AuthOk (client_id cl) (length (queueOf s (client_id cl))) (clock P (tick s)) #
           map Message (queueOf s (client_id cl)) @ rest"
proof -
  let ?buf = "buffer (conns s c) @ chunk"
  let ?s0 = "setBuffer c later (setBuffer c ?buf s)"
  let ?h = "handleAuth P cfg c msg ?s0"
  have line: "handleLine P cfg c (trim P raw) ?s0 = ?h"
    using assms(3,6,7,8) truthy_object [OF assms(9)]
    by (simp add: handleLine_def handleFrame_def setBuffer_fields)
  have go: "fst ?h"
    by (simp add: handleAuth_success(1) [OF assms(9,10,11)])
  have data: "step P cfg (Data c chunk) s = processBuffer P cfg c later (snd ?h)"
    using assms(2,4,5) go
    by (simp add: onData_def Let_def setBuffer_fields processBuffer_line [OF assms(4)] line)
  have authd: "written (conns (snd ?h) c) =
      written (conns s c) @
      AuthOk (client_id cl) (length (queueOf s (client_id cl))) (clock P (tick s)) #
      map Message (queueOf s (client_id cl))"
    by (simp add: handleAuth_success(2) [OF assms(9,10,11)] setBuffer_fields)
  have "grows cfg (snd ?h) (run P cfg evs (processBuffer P cfg c later (snd ?h)))"
    by (rule grows_trans [OF grows_processBuffer grows_run])
  from grows_prefix [OF this, of c] obtain rest where
    "written (conns (run P cfg evs (processBuffer P cfg c later (snd ?h))) c) =
       written (conns (snd ?h) c) @ rest"
    by blast
  then have "written (conns (run P cfg (Data c chunk # evs) s) c) =
       (written (conns s c) @
        AuthOk (client_id cl) (length (queueOf s (client_id cl))) (clock P (tick s)) #
        map Message (queueOf s (client_id cl))) @ rest"
    using assms(1) data authd by simp
  then show ?thesis
    by auto
qed

theorem drained_before_later_deliveries_witness:
  "fault bobQueued = None \<and> sock (conns bobQueued 2) = Open \<and>
   authed (conns bobQueued 2) = False \<and>
   splitLine (buffer (conns bobQueued 2) @ (authBob @ newline)) = Some (authBob, []) \<and>
   length (buffer (conns bobQueued 2) @ (authBob @ newline)) \<le> maxMessageBytes demoConfig * 2 \<and>
   jsonParse toyPlatform (trim toyPlatform authBob) = Some bobAuthMsg \<and>
   lookupClient demoConfig (getProp bobAuthMsg ''clientId'') = Some bobClient \<and>
   safeCompareHash toyPlatform (orElse (getProp bobAuthMsg ''apiKey'') (JStr []))
     (keySha256 bobClient) = Inr True \<and>
   map payload (queueOf bobQueued (client_id bobClient)) = [JNum ''1'', JNum ''2'', JNum ''3''] \<and>
   (\<exists>rest. written (conns (run toyPlatform demoConfig
        [Data 2 (authBob @ newline), Data 1 (sendBob CHR ''4'' @ newline)] bobQueued) 2) =
      written (conns bobQueued 2) @
      AuthOk (client_id bobClient) (length (queueOf bobQueued (client_id bobClient)))
        (clock toyPlatform (tick bobQueued)) #
      map Message (queueOf bobQueued (client_id bobClient)) @ rest)"
proof -
  have h1: "fault bobQueued = None"
    by code_simp
  have h2: "sock (conns bobQueued 2) = Open"
    by code_simp
  have h3: "\<not> authed (conns bobQueued 2)"
    by code_simp
  have h4: "splitLine (buffer (conns bobQueued 2) @ (authBob @ newline)) = Some (authBob, [])"
    by code_simp
  have h5: "length (buffer (conns bobQueued 2) @ (authBob @ newline)) \<le> maxMessageBytes demoConfig * 2"
    by code_simp
  have h6: "trim toyPlatform authBob \<noteq> []"
    by code_simp
  have h7: "length (trim toyPlatform authBob) \<le> maxMessageBytes demoConfig"
    by code_simp
  have h8: "jsonParse toyPlatform (trim toyPlatform authBob) = Some bobAuthMsg"
    by code_simp
  have h9: "getProp bobAuthMsg ''action'' = Some (JStr ''auth'')"
    by code_simp
  have h10: "lookupClient demoConfig (getProp bobAuthMsg ''clientId'') = Some bobClient"
    by code_simp
  have h11: "safeCompareHash toyPlatform (orElse (getProp bobAuthMsg ''apiKey'') (JStr []))
     (keySha256 bobClient) = Inr True"
    by code_simp
  have q: "map payload (queueOf bobQueued (client_id bobClient)) = [JNum ''1'', JNum ''2'', JNum ''3'']"
    by code_simp
  note drained_before_later_deliveries [OF h1 h2 h3 h4 h5 h6 h7 h8 h9 h10 h11,
      of "[Data 1 (sendBob CHR ''4'' @ newline)]"]
  with h1 h2 h3 h4 h5 h8 h10 h11 q show ?thesis
    by simp
qed
section \<open>The frame size limit\<close>

text \<open>
  Claim C7, as the specification states it, fails on the code.  The data handler
  looks at the size of the whole receive buffer before it looks at any frame (lines
  528-532), and it measures a frame after \<^verbatim>\<open>trim()\<close> (lines 539 and 546).  On the
  connection of \<open>alice\<close>, with a maximum frame size of 64 bytes: two frames of exactly
  64 bytes that arrive in one chunk are not processed, the answer is
  \<open>error: buffer_exceeded\<close> and the socket is destroyed; a frame of 65 bytes followed in
  its chunk by one of 64 bytes is not answered with \<open>message_too_large\<close> but in the same
  way; and a frame of 65 bytes whose last byte is a space is processed.
\<close>

theorem frame_size_boundary_counterexample:
  "length (paddedPing 38) = maxMessageBytes demoConfig \<and>
   written (conns (step toyPlatform demoConfig
       (Data 1 (paddedPing 38 @ newline @ paddedPing 38 @ newline)) aliceOnline) 1) =
     [AuthOk ''alice'' 0 [], ErrorFrame ''buffer_exceeded''] \<and>
   sock (conns (step toyPlatform demoConfig
       (Data 1 (paddedPing 38 @ newline @ paddedPing 38 @ newline)) aliceOnline) 1) = Destroyed \<and>
   length (paddedPing 39) = maxMessageBytes demoConfig + 1 \<and>
   written (conns (step toyPlatform demoConfig
       (Data 1 (paddedPing 39 @ newline @ paddedPing 38 @ newline)) aliceOnline) 1) =
     [AuthOk ''alice'' 0 [], ErrorFrame ''buffer_exceeded''] \<and>
   length (paddedPing 38 @ '' '') = maxMessageBytes demoConfig + 1 \<and>
   written (conns (step toyPlatform demoConfig
       (Data 1 (paddedPing 38 @ '' '' @ newline)) aliceOnline) 1) =
     [AuthOk ''alice'' 0 [], Pong ''t'']"
  by code_simp

text \<open>
  Claim C7, amended.  A chunk arrives on an open connection \<open>c\<close>; sizes are byte
  lengths of the text that the chunks decode to.  When the receive buffer with the
  chunk appended is at most twice \<open>maxMessageBytes\<close> long, the data handler runs the
  loop \<open>processBuffer\<close> over the lines of that buffer; when it is longer, no frame of it
  is looked at: \<open>error: buffer_exceeded\<close> is written and the socket destroyed.  Every
  turn of the loop is \<open>processBuffer\<close> on the rest of the buffer, so what follows
  holds for the frame at the head of any buffer \<open>buf\<close> in any state \<open>t\<close>, hence for every
  frame the loop reaches: a non-empty frame whose trimmed text is at most
  \<open>maxMessageBytes\<close> bytes long, in particular exactly that long, passes the size check
  and, being a truthy JSON value, is dispatched by \<open>handleFrame\<close>, the loop going on as
  \<open>handleFrame\<close> says; for a frame whose trimmed text is longer, by one byte or more,
  the only effect is the frame \<open>error: message_too_large\<close> written to the sender, and
  the loop goes on with the next line.
\<close>

theorem frame_size_boundary:
  "(sock (conns s c) = Open \<and>
    length (buffer (conns s c) @ chunk) \<le> maxMessageBytes cfg * 2 \<longrightarrow>
      step P cfg (Data c chunk) s =
        processBuffer P cfg c (buffer (conns s c) @ chunk)
          (setBuffer c (buffer (conns s c) @ chunk) s)) \<and>
   (sock (conns s c) = Open \<and>
    length (buffer (conns s c) @ chunk) > maxMessageBytes cfg * 2 \<longrightarrow>
      step P cfg (Data c chunk) s =
        destroy c (sendJson c (ErrorFrame ''buffer_exceeded'')
          (setBuffer c (buffer (conns s c) @ chunk) s))) \<and>
   (splitLine buf = Some (raw, rest) \<and> trim P raw \<noteq> [] \<and>
    length (trim P raw) \<le> maxMessageBytes cfg \<and>
    jsonParse P (trim P raw) = Some msg \<and> truthy (Some msg) \<longrightarrow>
      processBuffer P cfg c buf t =
        (if fst (handleFrame P cfg c msg (setBuffer c rest t))
         then processBuffer P cfg c rest (snd (handleFrame P cfg c msg (setBuffer c rest t)))
         else snd (handleFrame P cfg c msg (setBuffer c rest t)))) \<and>
   (splitLine buf = Some (raw, rest) \<and> length (trim P raw) > maxMessageBytes cfg \<longrightarrow>
      processBuffer P cfg c buf t =
        processBuffer P cfg c rest
          (sendJson c (ErrorFrame ''message_too_large'') (setBuffer c rest t)))"
proof (intro conjI impI)
  assume "sock (conns s c) = Open \<and>
    length (buffer (conns s c) @ chunk) \<le> maxMessageBytes cfg * 2"
  then show "step P cfg (Data c chunk) s =
      processBuffer P cfg c (buffer (conns s c) @ chunk)
        (setBuffer c (buffer (conns s c) @ chunk) s)"
    by (simp add: onData_def Let_def setBuffer_def)
next
  assume "sock (conns s c) = Open \<and>
    length (buffer (conns s c) @ chunk) > maxMessageBytes cfg * 2"
  then show "step P cfg (Data c chunk) s =
      destroy c (sendJson c (ErrorFrame ''buffer_exceeded'')
        (setBuffer c (buffer (conns s c) @ chunk) s))"
    by (simp add: onData_def Let_def setBuffer_def)
next
  assume a: "splitLine buf = Some (raw, rest) \<and> trim P raw \<noteq> [] \<and>
    length (trim P raw) \<le> maxMessageBytes cfg \<and>
    jsonParse P (trim P raw) = Some msg \<and> truthy (Some msg)"
  then have split: "splitLine buf = Some (raw, rest)"
    by simp
  from a have "handleLine P cfg c (trim P raw) (setBuffer c rest t) =
      handleFrame P cfg c msg (setBuffer c rest t)"
    by (simp add: handleLine_dispatch)
  then show "processBuffer P cfg c buf t =
      (if fst (handleFrame P cfg c msg (setBuffer c rest t))
       then processBuffer P cfg c rest (snd (handleFrame P cfg c msg (setBuffer c rest t)))
       else snd (handleFrame P cfg c msg (setBuffer c rest t)))"
    by (simp add: processBuffer_line [OF split])
next
  assume a: "splitLine buf = Some (raw, rest) \<and> length (trim P raw) > maxMessageBytes cfg"
  then have split: "splitLine buf = Some (raw, rest)"
    by simp
  from a show "processBuffer P cfg c buf t =
      processBuffer P cfg c rest
        (sendJson c (ErrorFrame ''message_too_large'') (setBuffer c rest t))"
    by (simp add: processBuffer_line [OF split] handleLine_too_large)
qed

theorem frame_size_boundary_witness:
  "sock (conns aliceOnline 1) = Open \<and> buffer (conns aliceOnline 1) = [] \<and>
   length (paddedPing 38) = maxMessageBytes demoConfig \<and>
   written (conns (step toyPlatform demoConfig (Data 1 (paddedPing 38 @ newline)) aliceOnline) 1) =
     [AuthOk ''alice'' 0 [], Pong ''t''] \<and>
   length (paddedPing 39) = maxMessageBytes demoConfig + 1 \<and>
   written (conns (step toyPlatform demoConfig
       (Data 1 (paddedPing 0 @ newline @ paddedPing 39 @ newline)) aliceOnline) 1) =
     [AuthOk ''alice'' 0 [], Pong ''t'', ErrorFrame ''message_too_large''] \<and>
   sock (conns (step toyPlatform demoConfig
       (Data 1 (paddedPing 0 @ newline @ paddedPing 39 @ newline)) aliceOnline) 1) = Open \<and>
   written (conns (step toyPlatform demoConfig
       (Data 1 (paddedPing 38 @ newline @ paddedPing 38 @ newline)) aliceOnline) 1) =
     [AuthOk ''alice'' 0 [], ErrorFrame ''buffer_exceeded'']"
proof -
  let ?P = toyPlatform and ?cfg = demoConfig and ?s = aliceOnline
  let ?old = "buffer (conns aliceOnline 1)"
  let ?ping = "\<lambda>n. JObj [(''action'', JStr ''ping''), (''pad'', JStr (replicate n CHR ''x''))]"
  have sock: "sock (conns ?s 1) = Open" and old: "?old = []"
    by code_simp+
  have len38: "length (paddedPing 38) = maxMessageBytes ?cfg"
    and len39: "length (paddedPing 39) = maxMessageBytes ?cfg + 1"
    by code_simp+

  txt \<open>a frame of exactly 64 bytes, alone in its chunk\<close>
  let ?c1 = "paddedPing 38 @ newline"
  let ?t1 = "setBuffer 1 (?old @ ?c1) ?s"
  have "sock (conns ?s 1) = Open \<and> length (?old @ ?c1) \<le> maxMessageBytes ?cfg * 2"
    by code_simp
  from mp [OF conjunct1 [OF frame_size_boundary [where s = ?s and c = 1 and chunk = ?c1
        and P = ?P and cfg = ?cfg]] this]
  have loop1: "step ?P ?cfg (Data 1 ?c1) ?s = processBuffer ?P ?cfg 1 (?old @ ?c1) ?t1" .
  have "splitLine (?old @ ?c1) = Some (paddedPing 38, []) \<and> trim ?P (paddedPing 38) \<noteq> [] \<and>
      length (trim ?P (paddedPing 38)) \<le> maxMessageBytes ?cfg \<and>
      jsonParse ?P (trim ?P (paddedPing 38)) = Some (?ping 38) \<and> truthy (Some (?ping 38))"
    by code_simp
  from mp [OF conjunct1 [OF conjunct2 [OF conjunct2 [OF frame_size_boundary
        [where buf = "?old @ ?c1" and raw = "paddedPing 38" and rest = "[]" and P = ?P
           and cfg = ?cfg and msg = "?ping 38" and c = 1 and t = ?t1]]]] this]
  have exact: "processBuffer ?P ?cfg 1 (?old @ ?c1) ?t1 =
      (if fst (handleFrame ?P ?cfg 1 (?ping 38) (setBuffer 1 [] ?t1))
       then processBuffer ?P ?cfg 1 [] (snd (handleFrame ?P ?cfg 1 (?ping 38) (setBuffer 1 [] ?t1)))
       else snd (handleFrame ?P ?cfg 1 (?ping 38) (setBuffer 1 [] ?t1)))" .
  have "written (conns
      (if fst (handleFrame ?P ?cfg 1 (?ping 38) (setBuffer 1 [] ?t1))
       then processBuffer ?P ?cfg 1 [] (snd (handleFrame ?P ?cfg 1 (?ping 38) (setBuffer 1 [] ?t1)))
       else snd (handleFrame ?P ?cfg 1 (?ping 38) (setBuffer 1 [] ?t1))) 1) =
     [AuthOk ''alice'' 0 [], Pong ''t'']"
    by code_simp
  then have r1: "written (conns (step ?P ?cfg (Data 1 ?c1) ?s) 1) =
      [AuthOk ''alice'' 0 [], Pong ''t'']"
    by (simp only: loop1 exact)

  txt \<open>a frame of 65 bytes, the second frame of its chunk\<close>
  let ?r2 = "paddedPing 39 @ newline"
  let ?c2 = "paddedPing 0 @ newline @ ?r2"
  let ?t2 = "setBuffer 1 (?old @ ?c2) ?s"
  let ?u2 = "snd (handleFrame ?P ?cfg 1 (?ping 0) (setBuffer 1 ?r2 ?t2))"
  have "sock (conns ?s 1) = Open \<and> length (?old @ ?c2) \<le> maxMessageBytes ?cfg * 2"
    by code_simp
  from mp [OF conjunct1 [OF frame_size_boundary [where s = ?s and c = 1 and chunk = ?c2
        and P = ?P and cfg = ?cfg]] this]
  have loop2: "step ?P ?cfg (Data 1 ?c2) ?s = processBuffer ?P ?cfg 1 (?old @ ?c2) ?t2" .
  have "splitLine (?old @ ?c2) = Some (paddedPing 0, ?r2) \<and> trim ?P (paddedPing 0) \<noteq> [] \<and>
      length (trim ?P (paddedPing 0)) \<le> maxMessageBytes ?cfg \<and>
      jsonParse ?P (trim ?P (paddedPing 0)) = Some (?ping 0) \<and> truthy (Some (?ping 0))"
    by code_simp
  from mp [OF conjunct1 [OF conjunct2 [OF conjunct2 [OF frame_size_boundary
        [where buf = "?old @ ?c2" and raw = "paddedPing 0" and rest = ?r2 and P = ?P
           and cfg = ?cfg and msg = "?ping 0" and c = 1 and t = ?t2]]]] this]
  have first: "processBuffer ?P ?cfg 1 (?old @ ?c2) ?t2 =
      (if fst (handleFrame ?P ?cfg 1 (?ping 0) (setBuffer 1 ?r2 ?t2))
       then processBuffer ?P ?cfg 1 ?r2 ?u2 else ?u2)" .
  have "splitLine ?r2 = Some (paddedPing 39, []) \<and>
      length (trim ?P (paddedPing 39)) > maxMessageBytes ?cfg"
    by code_simp
  from mp [OF conjunct2 [OF conjunct2 [OF conjunct2 [OF frame_size_boundary
        [where buf = ?r2 and raw = "paddedPing 39" and rest = "[]" and P = ?P
           and cfg = ?cfg and c = 1 and t = ?u2]]]] this]
  have larger: "processBuffer ?P ?cfg 1 ?r2 ?u2 =
      processBuffer ?P ?cfg 1 []
        (sendJson 1 (ErrorFrame ''message_too_large'') (setBuffer 1 [] ?u2))" .
  let ?end2 = "if fst (handleFrame ?P ?cfg 1 (?ping 0) (setBuffer 1 ?r2 ?t2))
       then processBuffer ?P ?cfg 1 []
              (sendJson 1 (ErrorFrame ''message_too_large'') (setBuffer 1 [] ?u2))
       else ?u2"
  have "written (conns ?end2 1) =
      [AuthOk ''alice'' 0 [], Pong ''t'', ErrorFrame ''message_too_large''] \<and>
     sock (conns ?end2 1) = Open"
    by code_simp
  then have r2: "written (conns (step ?P ?cfg (Data 1 ?c2) ?s) 1) =
      [AuthOk ''alice'' 0 [], Pong ''t'', ErrorFrame ''message_too_large''] \<and>
     sock (conns (step ?P ?cfg (Data 1 ?c2) ?s) 1) = Open"
    by (simp only: loop2 first larger)

  txt \<open>two frames of 64 bytes in one chunk\<close>
  let ?c3 = "paddedPing 38 @ newline @ paddedPing 38 @ newline"
  have "sock (conns ?s 1) = Open \<and> length (?old @ ?c3) > maxMessageBytes ?cfg * 2"
    by code_simp
  from mp [OF conjunct1 [OF conjunct2 [OF frame_size_boundary [where s = ?s and c = 1
        and chunk = ?c3 and P = ?P and cfg = ?cfg]]] this]
  have over: "step ?P ?cfg (Data 1 ?c3) ?s =
      destroy 1 (sendJson 1 (ErrorFrame ''buffer_exceeded'') (setBuffer 1 (?old @ ?c3) ?s))" .
  have "written (conns (destroy 1 (sendJson 1 (ErrorFrame ''buffer_exceeded'')
      (setBuffer 1 (?old @ ?c3) ?s))) 1) = [AuthOk ''alice'' 0 [], ErrorFrame ''buffer_exceeded'']"
    by code_simp
  then have r3: "written (conns (step ?P ?cfg (Data 1 ?c3) ?s) 1) =
      [AuthOk ''alice'' 0 [], ErrorFrame ''buffer_exceeded'']"
    by (simp only: over)
  from sock old len38 r1 len39 r2 r3 show ?thesis
    by simp
qed


section \<open>What ends a connection\<close>

text \<open>
  Claim C8 says that a frame longer than the maximum frame size terminates the
  connection.  The data handler answers such a frame with \<open>message_too_large\<close> and goes
  on with the next line (lines 546-549): the socket stays open and later frames are
  processed.
\<close>

theorem oversized_frame_closes_counterexample:
  "length (replicate 65 CHR ''x'') > maxMessageBytes demoConfig \<and>
   sock (conns (run toyPlatform demoConfig
      [Connect 5, Data 5 (replicate 65 CHR ''x'' @ newline)] init) 5) = Open \<and>
   written (conns (run toyPlatform demoConfig
      [Connect 5, Data 5 (replicate 65 CHR ''x'' @ newline), Data 5 (''{}'' @ newline)] init) 5) =
     [ErrorFrame ''message_too_large'', ErrorFrame ''auth_required'']"
  by code_simp

text \<open>
  Claim C8, amended.  What terminates a connection is the overflow of its parse buffer
  (lines 528-532): when a chunk makes the buffer of an open connection longer than twice
  \<open>maxMessageBytes\<close>, the daemon writes \<open>error: buffer_exceeded\<close> and destroys the
  socket; the connection is then closed and no further chunk has any effect.  No data
  event has any effect on a socket that is not open.  A frame longer than
  \<open>maxMessageBytes\<close> on a buffer that has not overflowed is answered with
  \<open>message_too_large\<close>, the socket is left as it is, and the loop goes on.
\<close>

theorem connection_closed_on_buffer_overflow:
  "(sock (conns s c) = Open \<and> length (buffer (conns s c) @ chunk) > maxMessageBytes cfg * 2 \<longrightarrow>
      step P cfg (Data c chunk) s =
        destroy c (sendJson c (ErrorFrame ''buffer_exceeded'')
          (setBuffer c (buffer (conns s c) @ chunk) s)) \<and>
      sock (conns (step P cfg (Data c chunk) s) c) = Destroyed \<and>
      step P cfg (Data c chunk') (step P cfg (Data c chunk) s) = step P cfg (Data c chunk) s) \<and>
   (sock (conns s c) \<noteq> Open \<longrightarrow> step P cfg (Data c chunk) s = s) \<and>
   (splitLine buf = Some (raw, rest) \<and> length (trim P raw) > maxMessageBytes cfg \<longrightarrow>
      processBuffer P cfg c buf s =
        processBuffer P cfg c rest
          (sendJson c (ErrorFrame ''message_too_large'') (setBuffer c rest s)) \<and>
      sock (conns (sendJson c (ErrorFrame ''message_too_large'') (setBuffer c rest s)) c) =
        sock (conns s c))"
proof (intro conjI impI)
  assume a: "sock (conns s c) = Open \<and> length (buffer (conns s c) @ chunk) > maxMessageBytes cfg * 2"
  then show eq: "step P cfg (Data c chunk) s =
        destroy c (sendJson c (ErrorFrame ''buffer_exceeded'')
          (setBuffer c (buffer (conns s c) @ chunk) s))"
    by (simp add: onData_def Let_def setBuffer_fields)
  show closed: "sock (conns (step P cfg (Data c chunk) s) c) = Destroyed"
    unfolding eq by (simp add: destroy_def)
  then show "step P cfg (Data c chunk') (step P cfg (Data c chunk) s) = step P cfg (Data c chunk) s"
    by simp
next
  assume "sock (conns s c) \<noteq> Open"
  then show "step P cfg (Data c chunk) s = s"
    by simp
next
  assume a: "splitLine buf = Some (raw, rest) \<and> length (trim P raw) > maxMessageBytes cfg"
  then show "processBuffer P cfg c buf s =
        processBuffer P cfg c rest
          (sendJson c (ErrorFrame ''message_too_large'') (setBuffer c rest s))"
    by (simp add: processBuffer_line handleLine_too_large)
  show "sock (conns (sendJson c (ErrorFrame ''message_too_large'') (setBuffer c rest s)) c) =
        sock (conns s c)"
    by (simp add: sendJson_def setBuffer_def)
qed

theorem connection_closed_on_buffer_overflow_witness:
  "sock (conns (run toyPlatform demoConfig [Connect 5] init) 5) = Open \<and>
   length (buffer (conns (run toyPlatform demoConfig [Connect 5] init) 5) @ replicate 129 CHR ''x'') >
     maxMessageBytes demoConfig * 2 \<and>
   sock (conns (step toyPlatform demoConfig (Data 5 (replicate 129 CHR ''x''))
     (run toyPlatform demoConfig [Connect 5] init)) 5) = Destroyed \<and>
   step toyPlatform demoConfig (Data 5 (''{}'' @ newline))
     (step toyPlatform demoConfig (Data 5 (replicate 129 CHR ''x''))
        (run toyPlatform demoConfig [Connect 5] init)) =
   step toyPlatform demoConfig (Data 5 (replicate 129 CHR ''x''))
     (run toyPlatform demoConfig [Connect 5] init) \<and>
   sock (conns init 5) = Fresh \<and>
   step toyPlatform demoConfig (Data 5 (''{}'' @ newline)) init = init \<and>
   splitLine (replicate 65 CHR ''x'' @ newline) = Some (replicate 65 CHR ''x'', []) \<and>
   length (trim toyPlatform (replicate 65 CHR ''x'')) > maxMessageBytes demoConfig \<and>
   processBuffer toyPlatform demoConfig 1 (replicate 65 CHR ''x'' @ newline) aliceOnline =
     processBuffer toyPlatform demoConfig 1 []
       (sendJson 1 (ErrorFrame ''message_too_large'') (setBuffer 1 [] aliceOnline))"
proof -
  let ?s = "run toyPlatform demoConfig [Connect 5] init"
  have h: "sock (conns ?s 5) = Open \<and>
      length (buffer (conns ?s 5) @ replicate 129 CHR ''x'') > maxMessageBytes demoConfig * 2"
    by code_simp
  from mp [OF conjunct1 [OF connection_closed_on_buffer_overflow
        [where s = ?s and c = 5 and chunk = "replicate 129 CHR ''x''" and cfg = demoConfig
           and P = toyPlatform and chunk' = "''{}'' @ newline"]] h]
  have a: "sock (conns (step toyPlatform demoConfig (Data 5 (replicate 129 CHR ''x'')) ?s) 5) = Destroyed \<and>
      step toyPlatform demoConfig (Data 5 (''{}'' @ newline))
        (step toyPlatform demoConfig (Data 5 (replicate 129 CHR ''x'')) ?s) =
      step toyPlatform demoConfig (Data 5 (replicate 129 CHR ''x'')) ?s"
    by (rule conjunct2)
  have fresh: "sock (conns init 5) = Fresh"
    by code_simp
  then have "sock (conns init 5) \<noteq> Open"
    by simp
  from mp [OF conjunct1 [OF conjunct2 [OF connection_closed_on_buffer_overflow
        [where s = init and c = 5 and chunk = "''{}'' @ newline" and cfg = demoConfig
           and P = toyPlatform]]] this]
  have b: "step toyPlatform demoConfig (Data 5 (''{}'' @ newline)) init = init" .
  have big1: "splitLine (replicate 65 CHR ''x'' @ newline) = Some (replicate 65 CHR ''x'', [])"
    by code_simp
  have big2: "length (trim toyPlatform (replicate 65 CHR ''x'')) > maxMessageBytes demoConfig"
    by code_simp
  from mp [OF conjunct2 [OF conjunct2 [OF connection_closed_on_buffer_overflow
        [where buf = "replicate 65 CHR ''x'' @ newline" and raw = "replicate 65 CHR ''x''"
           and rest = "[]" and cfg = demoConfig and P = toyPlatform and c = 1
           and s = aliceOnline]]] conjI [OF big1 big2]]
  have c: "processBuffer toyPlatform demoConfig 1 (replicate 65 CHR ''x'' @ newline) aliceOnline =
     processBuffer toyPlatform demoConfig 1 []
       (sendJson 1 (ErrorFrame ''message_too_large'') (setBuffer 1 [] aliceOnline))"
    by (rule conjunct1)
  from h a fresh b big1 big2 c show ?thesis
    by blast
qed

section \<open>Validation of the configuration\<close>



section \<open>The hash comparison\<close>

text \<open>
  What holds of \<open>safeCompareHash\<close>.  For every plaintext string and every stored hash
  string it returns a truth value: the exception of \<open>timingSafeEqual\<close> on buffers of
  different lengths cannot occur.  When the hex decoding of the stored hash is not
  exactly 32 bytes long the comparison of a string returns \<open>False\<close>, and for no
  plaintext value at all does it return \<open>True\<close>.  So a frame on an unauthenticated
  connection that names a client with such a stored hash leaves the connection
  unauthenticated and unregistered, and with such an admin token hash no HTTP request
  is authorized.
\<close>

lemma safeCompareHash_strings_fail_closed:
  "(\<exists>b. safeCompareHash P (JStr plain) expectedHash = Inr b) \<and>
   (length (hexDecode expectedHash) \<noteq> 32 \<longrightarrow>
      safeCompareHash P (JStr plain) expectedHash = Inr False \<and>
      safeCompareHash P v expectedHash \<noteq> Inr True) \<and>
   (\<not> authed (conns s c) \<and> lookupClient cfg (getProp msg ''clientId'') = Some cl \<and>
    length (hexDecode (keySha256 cl)) \<noteq> 32 \<longrightarrow>
      \<not> authed (conns (snd (handleFrame P cfg c msg s)) c) \<and>
      activeConnections (snd (handleFrame P cfg c msg s)) = activeConnections s) \<and>
   (adminTokenSha256 cfg = Some expectedHash \<and> length (hexDecode expectedHash) \<noteq> 32 \<longrightarrow>
      isAuthorizedHttp P cfg req = Inr False)"
proof (intro conjI impI)
  show "\<exists>b. safeCompareHash P (JStr plain) expectedHash = Inr b"
    by (simp add: safeCompareHash_string)
next
  assume bad: "length (hexDecode expectedHash) \<noteq> 32"
  then have "digestBytes (digest P plain) \<noteq> hexDecode expectedHash"
    using digestBytes_length [of "digest P plain"] by auto
  then show "safeCompareHash P (JStr plain) expectedHash = Inr False"
    by (simp add: safeCompareHash_string)
  from bad show "safeCompareHash P v expectedHash \<noteq> Inr True"
    by (rule safeCompareHash_malformed)
next
  assume a: "\<not> authed (conns s c) \<and> lookupClient cfg (getProp msg ''clientId'') = Some cl \<and>
    length (hexDecode (keySha256 cl)) \<noteq> 32"
  then have frame: "handleFrame P cfg c msg s = handleAuth P cfg c msg s"
    by (simp add: handleFrame_def)
  from a handleAuth_malformed_hash [of s c cfg msg cl P]
  show "\<not> authed (conns (snd (handleFrame P cfg c msg s)) c)"
    and "activeConnections (snd (handleFrame P cfg c msg s)) = activeConnections s"
    unfolding frame by simp_all
next
  assume a: "adminTokenSha256 cfg = Some expectedHash \<and> length (hexDecode expectedHash) \<noteq> 32"
  then have "digestBytes (digest P token) \<noteq> hexDecode expectedHash" for token
    using digestBytes_length [of "digest P token"] by auto
  with a show "isAuthorizedHttp P cfg req = Inr False"
    by (simp add: isAuthorizedHttp_def safeCompareHash_string split: headerValue.splits)
qed

lemma safeCompareHash_strings_fail_closed_example:
  "length (hexDecode (keySha256 carolClient)) = 0 \<and>
   safeCompareHash toyPlatform (JStr ''any key'') (keySha256 carolClient) = Inr False \<and>
   authed (conns (run toyPlatform demoConfig [Connect 5] init) 5) = False \<and>
   lookupClient demoConfig (getProp carolAuthMsg ''clientId'') = Some carolClient \<and>
   authed (conns (snd (handleFrame toyPlatform demoConfig 5 carolAuthMsg
     (run toyPlatform demoConfig [Connect 5] init))) 5) = False \<and>
   adminTokenSha256 badAdminConfig = Some ''zz'' \<and> length (hexDecode ''zz'') = 0 \<and>
   isAuthorizedHttp toyPlatform badAdminConfig (statusRequest (Single ''zz'')) = Inr False"
  by code_simp

text \<open>
  Claim C10 says more: that the comparison is total for every plaintext input and
  returns \<open>False\<close> without raising an error when the stored hash is malformed.  The
  socket handler passes \<^verbatim>\<open>msg.apiKey || ""\<close>, any truthy JSON value, and \<open>sha256\<close>
  applies \<^verbatim>\<open>String\<close> to it (line 276).  For a JSON object with a member \<open>toString\<close>
  that conversion throws a \<^verbatim>\<open>TypeError\<close>, whatever the digest and whatever the stored
  hash, before any length is compared.  The line
  \<^verbatim>\<open>{"action":"auth","clientId":"carol","apiKey":{"toString":1}}\<close>, sent on a fresh
  connection to the daemon whose stored hash for \<open>carol\<close> is \<open>not-a-hash\<close>, is within
  the frame size limit and valid JSON; the comparison raises, nothing catches the
  exception, the connection gets no answer (no \<open>auth_failed\<close>) and is not destroyed,
  and the daemon has ended: an \<open>auth\<close> frame of \<open>alice\<close> with the right key, arriving
  afterwards on another connection, gets no answer either.
\<close>

theorem safeCompareHash_raises_on_object_key:
  "safeCompareHash P (JObj [(''toString'', v)]) expectedHash = Inl TypeError \<and>
   length (hexDecode (keySha256 carolClient)) = 0 \<and>
   safeCompareHash toyPlatform (JObj [(''toString'', JNum ''1'')]) (keySha256 carolClient) =
     Inl TypeError \<and>
   length authCarolObjectKey = 60 \<and> maxMessageBytes demoConfig = 64 \<and>
   jsonParse toyPlatform authCarolObjectKey = Some carolObjectKeyMsg \<and>
   fault (run toyPlatform demoConfig [Connect 5, Data 5 (authCarolObjectKey @ newline)] init) =
     Some TypeError \<and>
   written (conns (run toyPlatform demoConfig
       [Connect 5, Data 5 (authCarolObjectKey @ newline)] init) 5) = [] \<and>
   sock (conns (run toyPlatform demoConfig
       [Connect 5, Data 5 (authCarolObjectKey @ newline)] init) 5) = Open \<and>
   written (conns (run toyPlatform demoConfig
       [Connect 5, Data 5 (authCarolObjectKey @ newline),
        Connect 1, Data 1 (authAlice @ newline)] init) 1) = [] \<and>
   written (conns (run toyPlatform demoConfig
       [Connect 1, Data 1 (authAlice @ newline)] init) 1) = [AuthOk ''alice'' 0 []]"
proof -
  have "safeCompareHash P (JObj [(''toString'', v)]) expectedHash = Inl TypeError"
    by (simp add: safeCompareHash_def)
  moreover have "length (hexDecode (keySha256 carolClient)) = 0 \<and>
      safeCompareHash toyPlatform (JObj [(''toString'', JNum ''1'')]) (keySha256 carolClient) =
        Inl TypeError \<and>
      length authCarolObjectKey = 60 \<and> maxMessageBytes demoConfig = 64 \<and>
      jsonParse toyPlatform authCarolObjectKey = Some carolObjectKeyMsg \<and>
      fault (run toyPlatform demoConfig [Connect 5, Data 5 (authCarolObjectKey @ newline)] init) =
        Some TypeError \<and>
      written (conns (run toyPlatform demoConfig
          [Connect 5, Data 5 (authCarolObjectKey @ newline)] init) 5) = [] \<and>
      sock (conns (run toyPlatform demoConfig
          [Connect 5, Data 5 (authCarolObjectKey @ newline)] init) 5) = Open \<and>
      written (conns (run toyPlatform demoConfig
          [Connect 5, Data 5 (authCarolObjectKey @ newline),
           Connect 1, Data 1 (authAlice @ newline)] init) 1) = [] \<and>
      written (conns (run toyPlatform demoConfig
          [Connect 1, Data 1 (authAlice @ newline)] init) 1) = [AuthOk ''alice'' 0 []]"
    by code_simp
  ultimately show ?thesis
    by (rule conjI)
qed


section \<open>The scenarios of the specification\<close>

text \<open>The end-to-end scenarios of section 8 of the specification, run on the model from
  the initial state.  The happy path: \<open>alice\<close> and \<open>bob\<close> are connected, \<open>alice\<close>
  sends to \<open>bob\<close>.\<close>

lemma scenario_happy_path:
  "written (conns (run toyPlatform demoConfig
      [Connect 1, Data 1 (authAlice @ newline), Connect 2, Data 2 (authBob @ newline),
       Data 1 (sendBob CHR ''1'' @ newline)] init) 1) =
     [AuthOk ''alice'' 0 [], Sent (JStr ''m_aa'') 1 False ''ttt''] \<and>
   written (conns (run toyPlatform demoConfig
      [Connect 1, Data 1 (authAlice @ newline), Connect 2, Data 2 (authBob @ newline),
       Data 1 (sendBob CHR ''1'' @ newline)] init) 2) =
     [AuthOk ''bob'' 0 ''t'',
      Message \<lparr>env_id = JStr ''m_aa'', env_from = ''alice'', env_to = ''bob'',
        env_type = JStr ''message'', payload = JNum ''1'', correlationId = JNull,
        ts = ''ttt''\<rparr>]"
  by code_simp

text \<open>Offline queueing, then the drain: three envelopes are acknowledged as queued,
  and the client \<open>bob\<close> receives them in the order they were sent, right after
  \<open>auth_ok\<close>.\<close>

lemma scenario_offline_then_drain:
  "written (conns bobQueued 1) =
     [AuthOk ''alice'' 0 [], Sent (JStr ''m_a'') 0 True ''tt'',
      Sent (JStr ''m_aaa'') 0 True ''tttt'', Sent (JStr ''m_aaaaa'') 0 True ''tttttt''] \<and>
   map (\<lambda>f. case f of Message e \<Rightarrow> payload e | AuthOk k n t \<Rightarrow> JStr k | _ \<Rightarrow> JNull)
     (written (conns (run toyPlatform demoConfig [Data 2 (authBob @ newline)] bobQueued) 2)) =
     [JStr ''bob'', JNum ''1'', JNum ''2'', JNum ''3''] \<and>
   queueOf (run toyPlatform demoConfig [Data 2 (authBob @ newline)] bobQueued) ''bob'' = []"
  by code_simp

text \<open>Bad authentication: the wrong key is answered with \<open>auth_failed\<close>, the socket is
  destroyed, nothing is registered and nothing is queued.\<close>

lemma scenario_bad_auth:
  "written (conns (run toyPlatform demoConfig
      [Connect 1, Data 1 (authAliceWrongKey @ newline)] init) 1) = [AuthFailed] \<and>
   sock (conns (run toyPlatform demoConfig
      [Connect 1, Data 1 (authAliceWrongKey @ newline)] init) 1) = Destroyed \<and>
   recipientsOf (run toyPlatform demoConfig
      [Connect 1, Data 1 (authAliceWrongKey @ newline)] init) ''alice'' = {||} \<and>
   queueOf (run toyPlatform demoConfig
      [Connect 1, Data 1 (authAliceWrongKey @ newline)] init) ''alice'' = []"
  by code_simp

text \<open>Queue overflow: with a limit of 3, five envelopes are sent to the client \<open>bob\<close>
  while it is not connected; when it authenticates it receives the last three.\<close>

lemma scenario_queue_overflow:
  "map (\<lambda>f. case f of Message e \<Rightarrow> payload e | AuthOk k n t \<Rightarrow> JStr k | _ \<Rightarrow> JNull)
     (written (conns (run toyPlatform demoConfig
        [Connect 1, Data 1 (authAlice @ newline),
         Data 1 (sendBob CHR ''1'' @ newline @ sendBob CHR ''2'' @ newline @
                 sendBob CHR ''3'' @ newline),
         Data 1 (sendBob CHR ''4'' @ newline), Data 1 (sendBob CHR ''5'' @ newline),
         Connect 2, Data 2 (authBob @ newline)] init) 2)) =
     [JStr ''bob'', JNum ''3'', JNum ''4'', JNum ''5'']"
  by code_simp

text \<open>Operator send: an envelope from \<open>bob\<close> to \<open>alice\<close>, who is connected.\<close>

lemma scenario_operator_send:
  "written (conns (run toyPlatform demoConfig [AdminSend adminBody] aliceOnline) 1) =
     [AuthOk ''alice'' 0 [],
      Message \<lparr>env_id = JStr ''admin_a'', env_from = ''bob'', env_to = ''alice'',
        env_type = JStr ''response'', payload = JNull, correlationId = JNull,
        ts = ''tt''\<rparr>]"
  by code_simp
end
